theory Spec2Isabelle
  imports Main "HOL-Library.Word"
begin

unbundle bit_operations_syntax

section \<open>JavaScript values, completions and callbacks\<close>

text \<open>
  The values that listeners store and callbacks return. \<open>Undefined\<close> is the value read
  from an index of a sparse array that was never written.
\<close>

datatype jsval = Undefined | Null | JBool bool | JNum int | JStr string | JObj nat

text \<open>ToBoolean, as applied by \<open>||\<close> and \<open>&&\<close>.\<close>

fun truthy :: "jsval \<Rightarrow> bool" where
  "truthy Undefined = False"
| "truthy Null = False"
| "truthy (JBool b) = b"
| "truthy (JNum n) = (n \<noteq> 0)"
| "truthy (JStr t) = (t \<noteq> [])"
| "truthy (JObj a) = True"

text \<open>
  How a call ends: it returns a value, it throws, or the process is aborted
  (\<open>process.abort()\<close>).
\<close>

datatype 'a completion = Normal 'a | Throw jsval | Abort

definition TypeError :: "string \<Rightarrow> jsval" where
  "TypeError msg = JStr (''TypeError: '' @ msg)"

text \<open>
  A user callback is a JavaScript function: it receives its arguments and may change the
  world outside the module (type \<open>'u\<close>). A callback that calls back into the module
  (\<open>addAsyncListener\<close>, \<open>removeAsyncListener\<close>, a scheduling function) while one of the
  module's loops is running is not covered: every statement below about the callbacks that
  a loop invokes is a statement about callbacks that leave the module alone.
\<close>

type_synonym 'u callback = "jsval list \<Rightarrow> 'u \<Rightarrow> jsval completion \<times> 'u"

section \<open>Flags and providers\<close>

definition HAS_NONE_AL :: "32 word" where "HAS_NONE_AL = 0"
definition HAS_CREATE_AL :: "32 word" where "HAS_CREATE_AL = push_bit 0 1"
definition HAS_BEFORE_AL :: "32 word" where "HAS_BEFORE_AL = push_bit 1 1"
definition HAS_AFTER_AL :: "32 word" where "HAS_AFTER_AL = push_bit 2 1"
definition HAS_ERROR_AL :: "32 word" where "HAS_ERROR_AL = push_bit 3 1"

text \<open>
  JavaScript's \<open>&\<close> and \<open>|\<close> work on the 32-bit two's complement of their operands,
  so providers and masks are 32-bit words; \<open>-1\<close> is the word with every bit set.
\<close>

definition ASYNC_PROVIDERS :: "(string \<times> 32 word) list" where
  "ASYNC_PROVIDERS =
    [(''NEXTTICK'', - 1),
     (''NONE'', 0),
     (''CRYPTO'', push_bit 0 1),
     (''FSEVENT'', push_bit 1 1),
     (''FS'', push_bit 2 1),
     (''GETADDRINFO'', push_bit 3 1),
     (''PIPE'', push_bit 4 1),
     (''PROCESS'', push_bit 5 1),
     (''QUERY'', push_bit 6 1),
     (''SHUTDOWN'', push_bit 7 1),
     (''SIGNAL'', push_bit 8 1),
     (''STATWATCHER'', push_bit 9 1),
     (''TCP'', push_bit 10 1),
     (''TIMER'', push_bit 11 1),
     (''TLS'', push_bit 12 1),
     (''TTY'', push_bit 13 1),
     (''UDP'', push_bit 14 1),
     (''ZLIB'', push_bit 15 1)]"

definition NEXTTICK :: "32 word" where "NEXTTICK = - 1"
definition NONE :: "32 word" where "NONE = 0"
definition TCP :: "32 word" where "TCP = push_bit 10 1"
definition TIMER :: "32 word" where "TIMER = push_bit 11 1"

text \<open>
  \<open>for (var i in ASYNC_PROVIDERS) PROVIDER_MAP[ASYNC_PROVIDERS[i]] = i\<close>. The module looks
  up the providers it is called with, which are values of \<open>ASYNC_PROVIDERS\<close>; the table
  is keyed by their 32-bit words.
\<close>

definition PROVIDER_MAP :: "32 word \<rightharpoonup> string" where
  "PROVIDER_MAP = fold (\<lambda>(i, v) m. m(v \<mapsto> i)) ASYNC_PROVIDERS Map.empty"

section \<open>Listeners, contexts and the module state\<close>

text \<open>The object handed to \<open>createAsyncListener\<close>; a field that is not a function is \<open>None\<close>.\<close>

record 'u callbacks =
  cb_create :: "'u callback option"
  cb_before :: "'u callback option"
  cb_after :: "'u callback option"
  cb_error :: "'u callback option"

record 'u AsyncListener =
  create :: "'u callback option"
  before :: "'u callback option"
  after :: "'u callback option"
  error :: "'u callback option"
  callback_flags :: "32 word"
  uid :: nat
  data :: jsval
  watched_providers :: "32 word"

text \<open>
  A context is any object that carries the \<open>_async*\<close> properties: a native handle, a timer,
  a function passed to \<open>nextTick\<close>, or the global context. \<open>self\<close> is the object's
  identity (what callbacks receive as the context). \<open>asyncQueue = None\<close> is an object whose
  \<open>_asyncQueue\<close> is undefined; such an object has the numeric properties undefined too, which
  \<open>&\<close> reads as 0. \<open>asyncData\<close> is the sparse array: a key that was never written is not
  in the map, and \<open>data[k] = undefined\<close> stores \<open>Undefined\<close>.
\<close>

record 'u async_context =
  self :: nat
  asyncData :: "nat \<rightharpoonup> jsval"
  asyncQueue :: "'u AsyncListener list option"
  asyncWatchedProviders :: "32 word"
  asyncProvider :: "32 word"
  asyncCallbackFlags :: "32 word"
  removeAsyncQueue :: "('u \<Rightarrow> 'u) option"

text \<open>Reading \<open>data[k]\<close>.\<close>

definition data_get :: "(nat \<rightharpoonup> jsval) \<Rightarrow> nat \<Rightarrow> jsval" where
  "data_get d k = (case d k of None \<Rightarrow> Undefined | Some v \<Rightarrow> v)"

text \<open>
  Modelled from the spec: the Status Word is a three-slot memory region that the native
  binding (\<open>setupAsyncListener\<close>, not part of the sources) installs behind \<open>asyncFlags\<close>;
  its slots hold numbers and start at zero. The fields are named after the index constants.
\<close>

record asyncFlags =
  kActiveAsyncContext :: "32 word"
  kActiveAsyncQueueLength :: nat
  kWatchedProviders :: "32 word"

text \<open>
  One record of every callback invocation: which callback, of which listener, on which
  arguments, and how it ended. The log is never read by the module.
\<close>

datatype phase = CreateCb | BeforeCb | AfterCb | ErrorCb

record invocation =
  inv_phase :: phase
  inv_uid :: nat
  inv_args :: "jsval list"
  inv_result :: "jsval completion"

record 'u state =
  contextStack :: "'u async_context list"
  activeContext :: "'u async_context"
  alUid :: nat
  asyncFlags :: asyncFlags
  inAsyncTick :: bool
  inErrorTick :: bool
  exiting :: bool
  emitted :: "nat list"
  world :: 'u
  fired :: "invocation list"

text \<open>
  \<open>contextStack\<close> is the array, \<open>push\<close> appends and \<open>pop\<close> takes the last element.
  \<open>exiting\<close> is \<open>process._exiting\<close>; \<open>emitted\<close> lists the codes of the \<open>exit\<close> events
  emitted with \<open>process.emit\<close> (the listeners of that event are outside the module).

  The module holds references to context objects. Here a context is a value that carries
  its identity \<open>self\<close>, and the state holds a copy of the active context and of every
  suspended one; two copies with the same \<open>self\<close> stand for one object. A function that
  writes to a context object returns the changed context and stores it over every copy of
  that object in the state (\<open>store_context\<close>). The global context has the identity 0,
  the objects that callers hand in have other identities, and a caller hands in an object
  as it currently is.
\<close>

definition store_context :: "'u async_context \<Rightarrow> 'u state \<Rightarrow> 'u state" where
  "store_context ctx s =
    s\<lparr>activeContext := (if self (activeContext s) = self ctx then ctx else activeContext s),
      contextStack := map (\<lambda>c. if self c = self ctx then ctx else c) (contextStack s)\<rparr>"

definition global_context :: "'u async_context" where
  "global_context =
    \<lparr>self = 0, asyncData = Map.empty, asyncQueue = Some [],
     asyncWatchedProviders = NONE, asyncProvider = 0,
     asyncCallbackFlags = HAS_NONE_AL, removeAsyncQueue = None\<rparr>"

definition resetGlobalContext :: "'u state \<Rightarrow> 'u state" where
  "resetGlobalContext s = s\<lparr>activeContext := global_context\<rparr>"

definition init :: "'u \<Rightarrow> 'u state" where
  "init w =
    \<lparr>contextStack = [], activeContext = global_context, alUid = 0,
     asyncFlags = \<lparr>kActiveAsyncContext = 0, kActiveAsyncQueueLength = 0, kWatchedProviders = 0\<rparr>,
     inAsyncTick = False, inErrorTick = False, exiting = False, emitted = [],
     world = w, fired = []\<rparr>"

text \<open>
  Calling a callback property of a listener. A property that is not a function cannot be
  called: that is a TypeError.
\<close>

definition callback_of :: "phase \<Rightarrow> 'u AsyncListener \<Rightarrow> 'u callback option" where
  "callback_of ph al =
    (case ph of CreateCb \<Rightarrow> create al | BeforeCb \<Rightarrow> before al
     | AfterCb \<Rightarrow> after al | ErrorCb \<Rightarrow> error al)"

definition invoke ::
  "phase \<Rightarrow> 'u AsyncListener \<Rightarrow> jsval list \<Rightarrow> 'u state \<Rightarrow> jsval completion \<times> 'u state" where
  "invoke ph al args s =
    (let (r, w) = (case callback_of ph al of
                     None \<Rightarrow> (Throw (TypeError ''undefined is not a function''), world s)
                   | Some f \<Rightarrow> f args (world s))
     in (r, s\<lparr>world := w,
              fired := fired s @ [\<lparr>inv_phase = ph, inv_uid = uid al, inv_args = args, inv_result = r\<rparr>]\<rparr>))"

section \<open>The create phase\<close>

text \<open>
  The loop of \<open>runAsyncQueue\<close> over \<open>acQueue\<close>. The accumulator holds the local arrays
  \<open>queue\<close> and \<open>data\<close> and the value of \<open>ctx._asyncWatchedProviders\<close>. A callback
  that throws ends the loop where it stands. What the loop has written to \<open>ctx\<close> stays
  written however the loop ends; when \<open>ctx\<close> is the active context itself (a function
  passed to \<open>nextTick\<close> again while it runs), \<open>acQueue\<close> is the array that the active
  context had on entry.
\<close>

fun runAsyncQueue_loop ::
  "32 word \<Rightarrow> jsval \<Rightarrow> 'u AsyncListener list \<Rightarrow>
   'u AsyncListener list \<times> (nat \<rightharpoonup> jsval) \<times> 32 word \<Rightarrow> 'u state \<Rightarrow>
   unit completion \<times> ('u AsyncListener list \<times> (nat \<rightharpoonup> jsval) \<times> 32 word) \<times> 'u state" where
  "runAsyncQueue_loop provider providerType [] acc s = (Normal (), acc, s)"
| "runAsyncQueue_loop provider providerType (queueItem # acQueue) (queue, dat, watched) s =
    (let queue1 = queue @ [queueItem];
         watched1 = watched OR watched_providers queueItem
     in if callback_flags queueItem AND HAS_CREATE_AL = 0 \<or>
           provider AND watched_providers queueItem = 0
        then runAsyncQueue_loop provider providerType acQueue
               (queue1, dat(uid queueItem \<mapsto> data queueItem), watched1) s
        else (case invoke CreateCb queueItem [data queueItem, providerType] s of
                (Normal v, s1) \<Rightarrow>
                  runAsyncQueue_loop provider providerType acQueue
                    (queue1,
                     dat(uid queueItem \<mapsto> (if v = Undefined then data queueItem else v)),
                     watched1) s1
              | (Throw e, s1) \<Rightarrow> (Throw e, (queue1, dat, watched1), s1)
              | (Abort, s1) \<Rightarrow> (Abort, (queue1, dat, watched1), s1)))"

definition runAsyncQueue ::
  "'u state \<Rightarrow> 'u async_context \<Rightarrow> 32 word \<Rightarrow>
   unit completion \<times> 'u async_context \<times> 'u state" where
  "runAsyncQueue s ctx provider =
    (case asyncQueue (activeContext s) of
       None \<Rightarrow> (Throw (TypeError ''Cannot read property length of undefined''), ctx, s)
     | Some acQueue \<Rightarrow>
         if length acQueue = 0 then (Abort, ctx, s)
         else
           (let providerType = (case PROVIDER_MAP provider of
                                  None \<Rightarrow> Undefined | Some name \<Rightarrow> JStr name);
                ctx0 = ctx\<lparr>asyncQueue := Some [], asyncData := Map.empty,
                           asyncProvider := provider,
                           asyncCallbackFlags := asyncCallbackFlags (activeContext s),
                           asyncWatchedProviders := 0\<rparr>
            in (case runAsyncQueue_loop provider providerType acQueue ([], Map.empty, 0)
                       (s\<lparr>inAsyncTick := True\<rparr>) of
                  (r, (queue, dat, watched), s1) \<Rightarrow>
                    (let ctx1 = ctx0\<lparr>asyncQueue := Some queue, asyncData := dat,
                                     asyncWatchedProviders := watched\<rparr>
                     in (case r of
                           Normal u \<Rightarrow>
                             (Normal (), ctx1, store_context ctx1 (s1\<lparr>inAsyncTick := False\<rparr>))
                         | Throw e \<Rightarrow> (Throw e, ctx1, store_context ctx1 s1)
                         | Abort \<Rightarrow> (Abort, ctx1, store_context ctx1 s1))))))"

section \<open>Loading and unloading a context\<close>

definition loadContext :: "'u state \<Rightarrow> 'u async_context \<Rightarrow> 'u state" where
  "loadContext s ctx =
    (case asyncQueue ctx of
       None \<Rightarrow> s
     | Some queue \<Rightarrow>
         s\<lparr>contextStack := contextStack s @ [activeContext s],
           activeContext := ctx,
           asyncFlags := \<lparr>kActiveAsyncContext = asyncProvider ctx,
                          kActiveAsyncQueueLength = length queue,
                          kWatchedProviders = asyncWatchedProviders ctx\<rparr>\<rparr>)"

text \<open>
  \<open>unloadContext\<close> writes the three slots in the order 0, 1, 2; reading \<open>.length\<close> of an
  undefined \<open>_asyncQueue\<close> throws after slot 0 was written.
\<close>

definition unloadContext :: "'u state \<Rightarrow> unit completion \<times> 'u state" where
  "unloadContext s =
    (let s1 = (if length (contextStack s) > 0
               then s\<lparr>activeContext := last (contextStack s),
                      contextStack := butlast (contextStack s)\<rparr>
               else resetGlobalContext s);
         ac = activeContext s1
     in (case asyncQueue ac of
           None \<Rightarrow>
             (Throw (TypeError ''Cannot read property length of undefined''),
              s1\<lparr>asyncFlags := (asyncFlags s1)\<lparr>kActiveAsyncContext := asyncProvider ac\<rparr>\<rparr>)
         | Some queue \<Rightarrow>
             (Normal (),
              s1\<lparr>asyncFlags := \<lparr>kActiveAsyncContext = asyncProvider ac,
                              kActiveAsyncQueueLength = length queue,
                              kWatchedProviders = asyncWatchedProviders ac\<rparr>\<rparr>)))"

fun loadAsyncQueue_loop ::
  "'u async_context \<Rightarrow> 'u AsyncListener list \<Rightarrow> 'u state \<Rightarrow> unit completion \<times> 'u state" where
  "loadAsyncQueue_loop ctx [] s = (Normal (), s)"
| "loadAsyncQueue_loop ctx (queueItem # queue) s =
    (if asyncProvider ctx AND watched_providers queueItem \<noteq> 0 \<and>
        callback_flags queueItem AND HAS_BEFORE_AL \<noteq> 0
     then (case invoke BeforeCb queueItem
                  [JObj (self ctx), data_get (asyncData ctx) (uid queueItem)] s of
             (Normal v, s1) \<Rightarrow> loadAsyncQueue_loop ctx queue s1
           | (Throw e, s1) \<Rightarrow> (Throw e, s1)
           | (Abort, s1) \<Rightarrow> (Abort, s1))
     else loadAsyncQueue_loop ctx queue s)"

definition loadAsyncQueue :: "'u state \<Rightarrow> 'u async_context \<Rightarrow> unit completion \<times> 'u state" where
  "loadAsyncQueue s ctx =
    (if (case asyncQueue ctx of None \<Rightarrow> False | Some queue \<Rightarrow> length queue = 0)
     then (Normal (), s)
     else
       (let s1 = loadContext s ctx
        in if asyncProvider ctx AND asyncWatchedProviders ctx = 0 \<or>
              asyncCallbackFlags ctx AND HAS_BEFORE_AL = 0
           then (Normal (), s1)
           else (case asyncQueue ctx of
                   None \<Rightarrow>
                     (Throw (TypeError ''Cannot read property length of undefined''),
                      s1\<lparr>inAsyncTick := True\<rparr>)
                 | Some queue \<Rightarrow>
                     (case loadAsyncQueue_loop ctx queue (s1\<lparr>inAsyncTick := True\<rparr>) of
                        (Normal u, s2) \<Rightarrow> (Normal (), s2\<lparr>inAsyncTick := False\<rparr>)
                      | (Throw e, s2) \<Rightarrow> (Throw e, s2)
                      | (Abort, s2) \<Rightarrow> (Abort, s2)))))"

fun unloadAsyncQueue_loop ::
  "'u async_context \<Rightarrow> 'u AsyncListener list \<Rightarrow> 'u state \<Rightarrow> unit completion \<times> 'u state" where
  "unloadAsyncQueue_loop ctx [] s = (Normal (), s)"
| "unloadAsyncQueue_loop ctx (queueItem # queue) s =
    (if asyncProvider ctx AND watched_providers queueItem \<noteq> 0 \<and>
        callback_flags queueItem AND HAS_AFTER_AL \<noteq> 0
     then (case invoke AfterCb queueItem
                  [JObj (self ctx), data_get (asyncData ctx) (uid queueItem)] s of
             (Normal v, s1) \<Rightarrow> unloadAsyncQueue_loop ctx queue s1
           | (Throw e, s1) \<Rightarrow> (Throw e, s1)
           | (Abort, s1) \<Rightarrow> (Abort, s1))
     else unloadAsyncQueue_loop ctx queue s)"

definition unloadAsyncQueue :: "'u state \<Rightarrow> 'u async_context \<Rightarrow> unit completion \<times> 'u state" where
  "unloadAsyncQueue s ctx =
    (if asyncProvider ctx AND asyncWatchedProviders ctx = 0 \<or>
        asyncCallbackFlags ctx AND HAS_AFTER_AL = 0
     then unloadContext s
     else (case asyncQueue ctx of
             None \<Rightarrow>
               (Throw (TypeError ''Cannot read property length of undefined''),
                s\<lparr>inAsyncTick := True\<rparr>)
           | Some queue \<Rightarrow>
               (case unloadAsyncQueue_loop ctx queue (s\<lparr>inAsyncTick := True\<rparr>) of
                  (Normal u, s1) \<Rightarrow> unloadContext (s1\<lparr>inAsyncTick := False\<rparr>)
                | (Throw e, s1) \<Rightarrow> (Throw e, s1)
                | (Abort, s1) \<Rightarrow> (Abort, s1))))"

section \<open>The error hook\<close>

text \<open>
  The loop of \<open>errorHandler\<close>. \<open>handled\<close> is kept as its truth value: the variable
  starts as \<open>false\<close> and \<open>v || handled\<close> is truthy exactly when \<open>v\<close> or \<open>handled\<close> is.
  When the callback throws, the \<open>finally\<close> block sets \<open>process._exiting\<close> and emits
  \<open>exit\<close> with code 1, and the exception goes on.
\<close>

fun errorHandler_loop ::
  "'u async_context \<Rightarrow> jsval \<Rightarrow> 'u AsyncListener list \<Rightarrow> bool \<Rightarrow> 'u state \<Rightarrow>
   bool completion \<times> 'u state" where
  "errorHandler_loop ac er [] handled s = (Normal handled, s)"
| "errorHandler_loop ac er (queueItem # queue) handled s =
    (if callback_flags queueItem AND HAS_ERROR_AL = 0
     then errorHandler_loop ac er queue handled s
     else (case invoke ErrorCb queueItem
                  [JObj (self ac), data_get (asyncData ac) (uid queueItem), er] s of
             (Normal v, s1) \<Rightarrow> errorHandler_loop ac er queue (truthy v \<or> handled) s1
           | (Throw e, s1) \<Rightarrow> (Throw e, s1\<lparr>exiting := True, emitted := emitted s1 @ [1]\<rparr>)
           | (Abort, s1) \<Rightarrow> (Abort, s1)))"

definition errorHandler :: "'u state \<Rightarrow> jsval \<Rightarrow> bool completion \<times> 'u state" where
  "errorHandler s er =
    (if inErrorTick s \<or> asyncCallbackFlags (activeContext s) AND HAS_ERROR_AL = 0
     then (Normal False, s)
     else
       (let ac = activeContext s
        in (case asyncQueue ac of
              None \<Rightarrow>
                (Throw (TypeError ''Cannot read property length of undefined''),
                 s\<lparr>inErrorTick := True\<rparr>)
            | Some queue \<Rightarrow>
                (case errorHandler_loop ac er queue False (s\<lparr>inErrorTick := True\<rparr>) of
                   (Normal handled, s1) \<Rightarrow>
                     (case unloadContext (s1\<lparr>inErrorTick := False\<rparr>) of
                        (Normal u, s2) \<Rightarrow> (Normal (handled \<and> \<not> inAsyncTick s2), s2)
                      | (Throw e, s2) \<Rightarrow> (Throw e, s2)
                      | (Abort, s2) \<Rightarrow> (Abort, s2))
                 | (Throw e, s1) \<Rightarrow> (Throw e, s1)
                 | (Abort, s1) \<Rightarrow> (Abort, s1)))))"

section \<open>Creating, adding and removing listeners\<close>

text \<open>
  The constructor. \<open>provider\<close> is \<open>None\<close> when the argument is undefined; otherwise
  \<open>provider >>> 0\<close> is the argument's 32-bit word.
\<close>

definition new_AsyncListener ::
  "'u state \<Rightarrow> 'u callbacks \<Rightarrow> jsval \<Rightarrow> 32 word option \<Rightarrow> 'u AsyncListener \<times> 'u state" where
  "new_AsyncListener s callbacks dat provider =
    (let flags0 = HAS_NONE_AL;
         flags1 = (if cb_create callbacks \<noteq> None then flags0 OR HAS_CREATE_AL else flags0);
         flags2 = (if cb_before callbacks \<noteq> None then flags1 OR HAS_BEFORE_AL else flags1);
         flags3 = (if cb_after callbacks \<noteq> None then flags2 OR HAS_AFTER_AL else flags2);
         flags4 = (if cb_error callbacks \<noteq> None then flags3 OR HAS_ERROR_AL else flags3);
         s1 = s\<lparr>alUid := alUid s + 1\<rparr>
     in (\<lparr>create = cb_create callbacks, before = cb_before callbacks,
          after = cb_after callbacks, error = cb_error callbacks,
          callback_flags = flags4,
          uid = alUid s1,
          data = (if dat = Undefined then Null else dat),
          watched_providers = (case provider of None \<Rightarrow> 0xfffffff | Some p \<Rightarrow> p)\<rparr>,
         s1))"

text \<open>
  What a caller may pass where a listener is expected: an \<open>AsyncListener\<close> instance, an
  object with callbacks, or something that is not an object (or null).
\<close>

datatype 'u listener_arg =
  Instance "'u AsyncListener" | Callbacks "'u callbacks" | NotAnObject jsval

definition createAsyncListener ::
  "'u state \<Rightarrow> 'u listener_arg \<Rightarrow> jsval \<Rightarrow> 32 word option \<Rightarrow>
   'u AsyncListener completion \<times> 'u state" where
  "createAsyncListener s callbacks dat providers =
    (case callbacks of
       Instance al \<Rightarrow> (Normal al, s)
     | NotAnObject v \<Rightarrow> (Throw (TypeError ''Missing expected callbacks object''), s)
     | Callbacks cbs \<Rightarrow>
         (case new_AsyncListener s cbs dat providers of (al, s1) \<Rightarrow> (Normal al, s1)))"

definition addListenerQueueItem :: "'u state \<Rightarrow> 'u AsyncListener \<Rightarrow> 'u state" where
  "addListenerQueueItem s al =
    (let ac = activeContext s
     in store_context
          (ac\<lparr>asyncQueue := map_option (\<lambda>queue. queue @ [al]) (asyncQueue ac),
              asyncData := (asyncData ac)(uid al \<mapsto> data al),
              asyncCallbackFlags := asyncCallbackFlags ac OR callback_flags al,
              asyncWatchedProviders := asyncWatchedProviders ac OR watched_providers al\<rparr>) s)"

definition addAsyncListener ::
  "'u state \<Rightarrow> 'u listener_arg \<Rightarrow> jsval \<Rightarrow> 32 word option \<Rightarrow>
   'u AsyncListener completion \<times> 'u state" where
  "addAsyncListener s callbacks dat providers =
    (case createAsyncListener s callbacks dat providers of
       (Normal al, s1) \<Rightarrow>
         (case asyncQueue (activeContext s1) of
            None \<Rightarrow> (Throw (TypeError ''Cannot read property of undefined''), s1)
          | Some queue \<Rightarrow>
              if data_get (asyncData (activeContext s1)) (uid al) = Undefined
              then
                (let s2 = addListenerQueueItem s1 al
                 in (Normal al,
                     s2\<lparr>asyncFlags := (asyncFlags s2)
                          \<lparr>kWatchedProviders := asyncWatchedProviders (activeContext s2),
                           kActiveAsyncQueueLength := length (queue @ [al])\<rparr>\<rparr>))
              else (Normal al, s1))
     | (Throw e, s1) \<Rightarrow> (Throw e, s1)
     | (Abort, s1) \<Rightarrow> (Abort, s1))"

text \<open>
  \<open>queue[i] === al\<close> compares object identity. An \<open>AsyncListener\<close> object gets its \<open>uid\<close>
  from the counter \<open>alUid\<close> in the constructor, once, and the module never changes it, so
  two listeners are the same object exactly when their \<open>uid\<close> is the same.

  \<open>removeAsyncListener\<close> passes the active context and every suspended context to
  \<open>removeAL\<close>. An object that stands in several of these places is passed several times;
  here each of its copies goes through \<open>removeAL\<close> and ends as the object does (the
  hook \<open>_removeAsyncQueue\<close> then runs once for each copy).
\<close>

definition same_object :: "'u AsyncListener \<Rightarrow> 'u AsyncListener \<Rightarrow> bool" where
  "same_object a b = (uid a = uid b)"

text \<open>
  The loop of \<open>removeAL\<close>: \<open>splice\<close> takes the element out and the index stays, otherwise
  the element's flags and providers are accumulated and the index moves on.
\<close>

fun removeAL_loop ::
  "'u AsyncListener \<Rightarrow> 'u AsyncListener list \<Rightarrow>
   'u AsyncListener list \<times> (nat \<rightharpoonup> jsval) \<times> 32 word \<times> 32 word \<Rightarrow>
   'u AsyncListener list \<times> (nat \<rightharpoonup> jsval) \<times> 32 word \<times> 32 word" where
  "removeAL_loop al [] acc = acc"
| "removeAL_loop al (item # rest) (kept, dat, flags, watched) =
    (if same_object item al
     then removeAL_loop al rest (kept, dat(uid item \<mapsto> Undefined), flags, watched)
     else removeAL_loop al rest
            (kept @ [item], dat, flags OR callback_flags item,
             watched OR watched_providers item))"

definition removeAL ::
  "'u async_context \<Rightarrow> 'u AsyncListener \<Rightarrow> 'u \<Rightarrow> unit completion \<times> 'u async_context \<times> 'u" where
  "removeAL ctx al w =
    (case asyncQueue ctx of
       None \<Rightarrow> (Throw (TypeError ''Cannot read property of undefined''), ctx, w)
     | Some queue \<Rightarrow>
         if data_get (asyncData ctx) (uid al) = Undefined then (Normal (), ctx, w)
         else
           (case removeAL_loop al queue ([], asyncData ctx, HAS_NONE_AL, NONE) of
              (queue1, dat1, flags1, watched1) \<Rightarrow>
                (let ctx1 = ctx\<lparr>asyncQueue := Some queue1, asyncData := dat1,
                                 asyncCallbackFlags := flags1,
                                 asyncWatchedProviders := watched1\<rparr>
                 in if length queue1 = 0
                    then (case removeAsyncQueue ctx of
                            None \<Rightarrow> (Normal (), ctx1, w)
                          | Some hook \<Rightarrow> (Normal (), ctx1, hook w))
                    else (Normal (), ctx1, w))))"

fun removeAL_stack ::
  "'u AsyncListener \<Rightarrow> 'u async_context list \<Rightarrow> 'u \<Rightarrow>
   unit completion \<times> 'u async_context list \<times> 'u" where
  "removeAL_stack al [] w = (Normal (), [], w)"
| "removeAL_stack al (ctx # rest) w =
    (case removeAL ctx al w of
       (Normal u, ctx1, w1) \<Rightarrow>
         (case removeAL_stack al rest w1 of (r, rest1, w2) \<Rightarrow> (r, ctx1 # rest1, w2))
     | (Throw e, ctx1, w1) \<Rightarrow> (Throw e, ctx1 # rest, w1)
     | (Abort, ctx1, w1) \<Rightarrow> (Abort, ctx1 # rest, w1))"

definition removeAsyncListener ::
  "'u state \<Rightarrow> 'u listener_arg \<Rightarrow> unit completion \<times> 'u state" where
  "removeAsyncListener s arg =
    (case arg of
       Instance al \<Rightarrow>
         (case removeAL (activeContext s) al (world s) of
            (Normal u, ac1, w1) \<Rightarrow>
              (let s1 = s\<lparr>activeContext := ac1, world := w1\<rparr>
               in (case asyncQueue ac1 of
                     None \<Rightarrow>
                       (Throw (TypeError ''Cannot read property length of undefined''),
                        s1\<lparr>asyncFlags := (asyncFlags s1)
                             \<lparr>kWatchedProviders := asyncWatchedProviders ac1\<rparr>\<rparr>)
                   | Some queue \<Rightarrow>
                       (let s2 = s1\<lparr>asyncFlags := (asyncFlags s1)
                                      \<lparr>kWatchedProviders := asyncWatchedProviders ac1,
                                       kActiveAsyncQueueLength := length queue\<rparr>\<rparr>
                        in (case removeAL_stack al (contextStack s2) (world s2) of
                              (r, stack1, w2) \<Rightarrow>
                                (r, s2\<lparr>contextStack := stack1, world := w2\<rparr>)))))
          | (Throw e, ac1, w1) \<Rightarrow> (Throw e, s\<lparr>activeContext := ac1, world := w1\<rparr>)
          | (Abort, ac1, w1) \<Rightarrow> (Abort, s\<lparr>activeContext := ac1, world := w1\<rparr>))
     | Callbacks cbs \<Rightarrow>
         (Throw (TypeError ''argument should be instance of AsyncListener''), s)
     | NotAnObject v \<Rightarrow>
         (Throw (TypeError ''argument should be instance of AsyncListener''), s))"

section \<open>Sequences of calls\<close>

text \<open>
  The calls that reach the module: the four entry points given to the native binding and
  the two public functions that change the active context.
\<close>

datatype 'u call =
  Create "'u async_context" "32 word"
| Load "'u async_context"
| Unload "'u async_context"
| Error jsval
| Attach "'u listener_arg" jsval "32 word option"
| Detach "'u listener_arg"

fun step :: "'u state \<Rightarrow> 'u call \<Rightarrow> 'u state" where
  "step s (Create ctx provider) = snd (snd (runAsyncQueue s ctx provider))"
| "step s (Load ctx) = snd (loadAsyncQueue s ctx)"
| "step s (Unload ctx) = snd (unloadAsyncQueue s ctx)"
| "step s (Error er) = snd (errorHandler s er)"
| "step s (Attach callbacks dat providers) = snd (addAsyncListener s callbacks dat providers)"
| "step s (Detach arg) = snd (removeAsyncListener s arg)"

definition run :: "'u state \<Rightarrow> 'u call list \<Rightarrow> 'u state" where
  "run s calls = foldl step s calls"

section \<open>Vocabulary of the properties\<close>

text \<open>The callbacks invoked between two states, oldest first.\<close>

definition new_events :: "'u state \<Rightarrow> 'u state \<Rightarrow> invocation list" where
  "new_events s s' = drop (length (fired s)) (fired s')"

text \<open>Some error callback among the invocations returned a truthy value.\<close>

definition handled_by :: "invocation list \<Rightarrow> bool" where
  "handled_by evs =
    (\<exists>i \<in> set evs. inv_phase i = ErrorCb \<and>
       (case inv_result i of Normal v \<Rightarrow> truthy v | Throw e \<Rightarrow> False | Abort \<Rightarrow> False))"

text \<open>The OR of the callback flags, and of the watch masks, of a queue.\<close>

definition flags_of :: "'u AsyncListener list \<Rightarrow> 32 word" where
  "flags_of q = fold (\<lambda>L a. a OR callback_flags L) q 0"

definition watched_of :: "'u AsyncListener list \<Rightarrow> 32 word" where
  "watched_of q = fold (\<lambda>L a. a OR watched_providers L) q 0"

text \<open>
  The Status Word mirrors the active context: slot 0 its provider, slot 1 the length of
  its queue, slot 2 its watched providers.
\<close>

definition status_ok :: "'u state \<Rightarrow> bool" where
  "status_ok s =
    (case asyncQueue (activeContext s) of
       None \<Rightarrow> False
     | Some queue \<Rightarrow>
         asyncFlags s = \<lparr>kActiveAsyncContext = asyncProvider (activeContext s),
                         kActiveAsyncQueueLength = length queue,
                         kWatchedProviders = asyncWatchedProviders (activeContext s)\<rparr>)"

text \<open>Every suspended context has a queue (\<open>loadContext\<close> pushes no other).\<close>

definition stack_ok :: "'u state \<Rightarrow> bool" where
  "stack_ok s = (\<forall>c \<in> set (contextStack s). asyncQueue c \<noteq> None)"

definition queues_ok :: "'u state \<Rightarrow> bool" where
  "queues_ok s = (asyncQueue (activeContext s) \<noteq> None \<and> stack_ok s)"

text \<open>
  No call of \<open>runAsyncQueue\<close> in the sequence is made on the object that is the active
  context at that moment.
\<close>

fun fresh_creates :: "'u state \<Rightarrow> 'u call list \<Rightarrow> bool" where
  "fresh_creates s [] = True"
| "fresh_creates s (c # calls) =
    ((case c of Create ctx provider \<Rightarrow> self ctx \<noteq> self (activeContext s) | _ \<Rightarrow> True) \<and>
     fresh_creates (step s c) calls)"

text \<open>
  The data model's invariants about one context and one listener: the listener's slot reads
  as defined exactly when the listener is in the queue, and the two aggregates are the OR
  over the queue.
\<close>

definition slot_present :: "'u async_context \<Rightarrow> 'u AsyncListener \<Rightarrow> bool" where
  "slot_present c al = (data_get (asyncData c) (uid al) \<noteq> Undefined)"

definition attached :: "'u async_context \<Rightarrow> 'u AsyncListener \<Rightarrow> bool" where
  "attached c al =
    (case asyncQueue c of None \<Rightarrow> False | Some q \<Rightarrow> (\<exists>L \<in> set q. same_object L al))"

definition aggregates_ok :: "'u async_context \<Rightarrow> bool" where
  "aggregates_ok c =
    (case asyncQueue c of
       None \<Rightarrow> False
     | Some q \<Rightarrow> asyncWatchedProviders c = watched_of q \<and> asyncCallbackFlags c = flags_of q)"

definition consistent :: "'u async_context \<Rightarrow> 'u AsyncListener \<Rightarrow> bool" where
  "consistent c al = (aggregates_ok c \<and> slot_present c al = attached c al)"

text \<open>
  What \<open>removeAL\<close> does to one context, \<open>c\<close> before and \<open>c'\<close> after: a context in
  which the listener's slot reads as defined loses the listener, and a context in which
  the slot reads as undefined is left as it is.
\<close>

definition detached :: "'u AsyncListener \<Rightarrow> 'u async_context \<Rightarrow> 'u async_context \<Rightarrow> bool" where
  "detached al c c' =
    (if slot_present c al
     then asyncQueue c' = map_option (filter (\<lambda>L. \<not> same_object L al)) (asyncQueue c) \<and>
          \<not> attached c' al \<and> aggregates_ok c' \<and> (attached c al \<longrightarrow> \<not> slot_present c' al)
     else c' = c)"

section \<open>Example listeners and states\<close>

text \<open>A listener with only an error callback, which reports the error as handled.\<close>

definition only_error :: "unit callbacks" where
  "only_error = \<lparr>cb_create = None, cb_before = None, cb_after = None,
                 cb_error = Some (\<lambda>args w. (Normal (JBool True), w))\<rparr>"

definition listening :: "unit state" where
  "listening = snd (addAsyncListener (init ()) (Callbacks only_error) Undefined None)"

definition listener1 :: "unit AsyncListener" where
  "listener1 = fst (new_AsyncListener (init ()) only_error Undefined None)"

text \<open>A listener whose error callback throws.\<close>

definition throws_error :: "unit callbacks" where
  "throws_error = \<lparr>cb_create = None, cb_before = None, cb_after = None,
                   cb_error = Some (\<lambda>args w. (Throw (JStr ''failed''), w))\<rparr>"

definition failing :: "unit state" where
  "failing = snd (addAsyncListener (init ()) (Callbacks throws_error) Undefined None)"

text \<open>An object that never went through \<open>runAsyncQueue\<close>.\<close>

definition blank_handle :: "nat \<Rightarrow> unit async_context" where
  "blank_handle n =
    \<lparr>self = n, asyncData = Map.empty, asyncQueue = None, asyncWatchedProviders = 0,
     asyncProvider = 0, asyncCallbackFlags = 0, removeAsyncQueue = None\<rparr>"

text \<open>A listener with a create callback that returns \<open>'A'\<close>, data 1, watching TCP.\<close>

definition with_create :: "unit callbacks" where
  "with_create = \<lparr>cb_create = Some (\<lambda>args w. (Normal (JStr ''A''), w)), cb_before = None,
                  cb_after = None, cb_error = None\<rparr>"

definition listenerA :: "unit AsyncListener" where
  "listenerA = fst (new_AsyncListener (init ()) with_create (JNum 1) (Some TCP))"

definition creating :: "unit state" where
  "creating = snd (addAsyncListener (init ()) (Callbacks with_create) (JNum 1) (Some TCP))"

text \<open>The error-only listener, watching TCP only.\<close>

definition listener_tcp :: "unit AsyncListener" where
  "listener_tcp = fst (new_AsyncListener (init ()) only_error Undefined (Some TCP))"

definition listening_tcp :: "unit state" where
  "listening_tcp = snd (addAsyncListener (init ()) (Callbacks only_error) Undefined (Some TCP))"

text \<open>The listener with a create callback, created with the provider mask \<open>NONE\<close>.\<close>

definition mute :: "unit AsyncListener" where
  "mute = fst (new_AsyncListener (init ()) with_create Null (Some NONE))"

definition muted :: "unit state" where
  "muted = snd (addAsyncListener (init ()) (Callbacks with_create) Null (Some NONE))"

text \<open>
  A timer and a socket created while \<open>listener1\<close> is the only listener of the global
  context.
\<close>

definition timer0 :: "unit async_context" where
  "timer0 = fst (snd (runAsyncQueue listening (blank_handle 7) TIMER))"

definition socket1 :: "unit async_context" where
  "socket1 = fst (snd (runAsyncQueue listening (blank_handle 8) TCP))"

text \<open>The socket's callback runs, and inside it the timer's callback.\<close>

definition nested :: "unit state" where
  "nested = run listening [Load socket1, Load timer0]"

text \<open>
  The timer's callback runs and removes \<open>listener1\<close>: this is the timer afterwards, with
  an empty queue.
\<close>

definition idle_timer :: "unit async_context" where
  "idle_timer = activeContext (run listening [Load timer0, Detach (Instance listener1)])"

text \<open>
  The same run, continued: the timer is unloaded, and a second listener is added to the
  global context.
\<close>

definition relistening :: "unit state" where
  "relistening =
     run listening [Load timer0, Detach (Instance listener1), Unload idle_timer,
                    Attach (Callbacks only_error) Undefined None]"

text \<open>
  A listener whose create callback throws, added to the global context before the
  error-only listener: uids 1 and 2.
\<close>

definition throws_create :: "unit callbacks" where
  "throws_create = \<lparr>cb_create = Some (\<lambda>args w. (Throw (JStr ''failed''), w)), cb_before = None,
                    cb_after = None, cb_error = None\<rparr>"

definition thrower :: "unit AsyncListener" where
  "thrower = fst (new_AsyncListener (init ()) throws_create Undefined None)"

definition guarded :: "unit state" where
  "guarded = run (init ()) [Attach (Callbacks throws_create) Undefined None,
                            Attach (Callbacks only_error) Undefined None]"

text \<open>
  A timer is created in \<open>guarded\<close>: the create callback throws out of \<open>setTimeout\<close>,
  and this is the timer as \<open>runAsyncQueue\<close> left it. The timer was scheduled before, so
  its callback runs later (\<open>stranded\<close>).
\<close>

definition half_built :: "unit async_context" where
  "half_built = fst (snd (runAsyncQueue guarded (blank_handle 7) TIMER))"

definition stranded :: "unit state" where
  "stranded = run (init ()) [Attach (Callbacks throws_create) Undefined None,
                             Attach (Callbacks only_error) Undefined None,
                             Create (blank_handle 7) TIMER, Load half_built]"

text \<open>
  A function is passed to \<open>nextTick\<close> while \<open>listenerA\<close> is the only listener
  (\<open>tick\<close> is the function afterwards). It runs, adds a listener of TCP whose create
  callback throws and then one more listener (\<open>inside\<close>), and passes itself to
  \<open>nextTick\<close> again, catching the exception; then it calls \<open>setTimeout\<close>, and
  throws (\<open>stale\<close>).
\<close>

definition tick :: "unit async_context" where
  "tick = fst (snd (runAsyncQueue creating (blank_handle 7) NEXTTICK))"

definition inside :: "unit state" where
  "inside = run (init ()) [Attach (Callbacks with_create) (JNum 1) (Some TCP),
                           Create (blank_handle 7) NEXTTICK, Load tick,
                           Attach (Callbacks throws_create) Undefined (Some TCP),
                           Attach (Callbacks with_create) Null None]"

definition stale :: "unit state" where
  "stale = run inside [Create (activeContext inside) NEXTTICK, Create (blank_handle 8) TIMER,
                       Error (JStr ''boom'')]"






section \<open>Basic facts\<close>

lemma flags_simps: "HAS_NONE_AL = 0" "HAS_CREATE_AL = 1" "HAS_BEFORE_AL = 2" "HAS_AFTER_AL = 4" "HAS_ERROR_AL = 8"
  by (simp_all add: HAS_NONE_AL_def HAS_CREATE_AL_def HAS_BEFORE_AL_def HAS_AFTER_AL_def HAS_ERROR_AL_def)

text \<open>The constructor sets a flag exactly for a callback that is a function.\<close>

lemma new_AsyncListener_flags:
  "(callback_flags (fst (new_AsyncListener s cbs d p)) AND HAS_CREATE_AL = 0) = (cb_create cbs = None)"
  "(callback_flags (fst (new_AsyncListener s cbs d p)) AND HAS_BEFORE_AL = 0) = (cb_before cbs = None)"
  "(callback_flags (fst (new_AsyncListener s cbs d p)) AND HAS_AFTER_AL = 0) = (cb_after cbs = None)"
  "(callback_flags (fst (new_AsyncListener s cbs d p)) AND HAS_ERROR_AL = 0) = (cb_error cbs = None)"
  by (simp_all add: new_AsyncListener_def Let_def flags_simps)

lemma invoke_frame:
  assumes "invoke ph al args s = (r, s')"
  shows "contextStack s' = contextStack s \<and> activeContext s' = activeContext s \<and>
         alUid s' = alUid s \<and> asyncFlags s' = asyncFlags s \<and>
         inAsyncTick s' = inAsyncTick s \<and> inErrorTick s' = inErrorTick s \<and>
         exiting s' = exiting s \<and> emitted s' = emitted s \<and>
         fired s' = fired s @ [\<lparr>inv_phase = ph, inv_uid = uid al, inv_args = args, inv_result = r\<rparr>]"
  using assms by (auto simp: invoke_def Let_def split: prod.splits option.splits)

lemma loadAsyncQueue_loop_frame:
  "loadAsyncQueue_loop ctx q s = (r, s') \<Longrightarrow>
     contextStack s' = contextStack s \<and> activeContext s' = activeContext s \<and>
     alUid s' = alUid s \<and> asyncFlags s' = asyncFlags s \<and>
     inAsyncTick s' = inAsyncTick s \<and> inErrorTick s' = inErrorTick s \<and>
     exiting s' = exiting s \<and> emitted s' = emitted s"
proof (induction q arbitrary: s)
  case Nil
  then show ?case by simp
next
  case (Cons x q)
  obtain r1 s1 where
    inv: "invoke BeforeCb x [JObj (self ctx), data_get (asyncData ctx) (uid x)] s = (r1, s1)"
    by fastforce
  note f1 = invoke_frame[OF inv]
  show ?case
  proof (cases "asyncProvider ctx AND watched_providers x \<noteq> 0 \<and>
                callback_flags x AND HAS_BEFORE_AL \<noteq> 0")
    case False
    with Cons.prems have "loadAsyncQueue_loop ctx q s = (r, s')" by auto
    then show ?thesis by (rule Cons.IH)
  next
    case True
    show ?thesis
    proof (cases r1)
      case (Normal v)
      with Cons.prems True inv have "loadAsyncQueue_loop ctx q s1 = (r, s')" by simp
      from Cons.IH[OF this] f1 show ?thesis by simp
    next
      case (Throw e)
      with Cons.prems True inv have "s' = s1" by simp
      with f1 show ?thesis by simp
    next
      case Abort
      with Cons.prems True inv have "s' = s1" by simp
      with f1 show ?thesis by simp
    qed
  qed
qed

lemma unloadAsyncQueue_loop_frame:
  "unloadAsyncQueue_loop ctx q s = (r, s') \<Longrightarrow>
     contextStack s' = contextStack s \<and> activeContext s' = activeContext s \<and>
     alUid s' = alUid s \<and> asyncFlags s' = asyncFlags s \<and>
     inAsyncTick s' = inAsyncTick s \<and> inErrorTick s' = inErrorTick s \<and>
     exiting s' = exiting s \<and> emitted s' = emitted s"
proof (induction q arbitrary: s)
  case Nil
  then show ?case by simp
next
  case (Cons x q)
  obtain r1 s1 where
    inv: "invoke AfterCb x [JObj (self ctx), data_get (asyncData ctx) (uid x)] s = (r1, s1)"
    by fastforce
  note f1 = invoke_frame[OF inv]
  show ?case
  proof (cases "asyncProvider ctx AND watched_providers x \<noteq> 0 \<and>
                callback_flags x AND HAS_AFTER_AL \<noteq> 0")
    case False
    with Cons.prems have "unloadAsyncQueue_loop ctx q s = (r, s')" by auto
    then show ?thesis by (rule Cons.IH)
  next
    case True
    show ?thesis
    proof (cases r1)
      case (Normal v)
      with Cons.prems True inv have "unloadAsyncQueue_loop ctx q s1 = (r, s')" by simp
      from Cons.IH[OF this] f1 show ?thesis by simp
    next
      case (Throw e)
      with Cons.prems True inv have "s' = s1" by simp
      with f1 show ?thesis by simp
    next
      case Abort
      with Cons.prems True inv have "s' = s1" by simp
      with f1 show ?thesis by simp
    qed
  qed
qed

lemma runAsyncQueue_loop_frame:
  "runAsyncQueue_loop p pt q acc s = (r, acc', s') \<Longrightarrow>
     contextStack s' = contextStack s \<and> activeContext s' = activeContext s \<and>
     alUid s' = alUid s \<and> asyncFlags s' = asyncFlags s \<and>
     inAsyncTick s' = inAsyncTick s \<and> inErrorTick s' = inErrorTick s \<and>
     exiting s' = exiting s \<and> emitted s' = emitted s"
proof (induction q arbitrary: acc s)
  case Nil
  then show ?case by simp
next
  case (Cons x q)
  obtain queue dat wat where acc: "acc = (queue, dat, wat)" by (cases acc) auto
  obtain r1 s1 where inv: "invoke CreateCb x [data x, pt] s = (r1, s1)" by fastforce
  note f1 = invoke_frame[OF inv]
  show ?case
  proof (cases "callback_flags x AND HAS_CREATE_AL = 0 \<or> p AND watched_providers x = 0")
    case True
    with Cons.prems acc have
      "runAsyncQueue_loop p pt q
         (queue @ [x], dat(uid x \<mapsto> data x), wat OR watched_providers x) s = (r, acc', s')"
      by (simp add: Let_def)
    then show ?thesis by (rule Cons.IH)
  next
    case False
    show ?thesis
    proof (cases r1)
      case (Normal v)
      with Cons.prems False inv acc have
        "runAsyncQueue_loop p pt q
           (queue @ [x], dat(uid x \<mapsto> (if v = Undefined then data x else v)),
            wat OR watched_providers x) s1 = (r, acc', s')"
        by (simp add: Let_def)
      from Cons.IH[OF this] f1 show ?thesis by simp
    next
      case (Throw e)
      with Cons.prems False inv acc have "s' = s1" by (simp add: Let_def)
      with f1 show ?thesis by simp
    next
      case Abort
      with Cons.prems False inv acc have "s' = s1" by (simp add: Let_def)
      with f1 show ?thesis by simp
    qed
  qed
qed

text \<open>The error loop leaves the module's variables alone; a throw sets the exit marks.\<close>

lemma errorHandler_loop_effect:
  "errorHandler_loop ac er q h s = (r, s') \<Longrightarrow>
     contextStack s' = contextStack s \<and> activeContext s' = activeContext s \<and>
     alUid s' = alUid s \<and> asyncFlags s' = asyncFlags s \<and>
     inAsyncTick s' = inAsyncTick s \<and> inErrorTick s' = inErrorTick s \<and>
     (case r of Throw e \<Rightarrow> exiting s' \<and> emitted s' = emitted s @ [1]
      | Normal b \<Rightarrow> exiting s' = exiting s \<and> emitted s' = emitted s
      | Abort \<Rightarrow> exiting s' = exiting s \<and> emitted s' = emitted s)"
proof (induction q arbitrary: h s)
  case Nil
  then show ?case by auto
next
  case (Cons x q)
  obtain r1 s1 where
    inv: "invoke ErrorCb x [JObj (self ac), data_get (asyncData ac) (uid x), er] s = (r1, s1)"
    by fastforce
  note f1 = invoke_frame[OF inv]
  show ?case
  proof (cases "callback_flags x AND HAS_ERROR_AL = 0")
    case True
    with Cons.prems have "errorHandler_loop ac er q h s = (r, s')" by simp
    then show ?thesis by (rule Cons.IH)
  next
    case False
    show ?thesis
    proof (cases r1)
      case (Normal v)
      with Cons.prems False inv have
        "errorHandler_loop ac er q (truthy v \<or> h) s1 = (r, s')" by simp
      from Cons.IH[OF this] f1 show ?thesis by (cases r) simp_all
    next
      case (Throw e)
      with Cons.prems False inv have
        "s' = s1\<lparr>exiting := True, emitted := emitted s1 @ [1]\<rparr>" "r = Throw e" by simp_all
      with f1 show ?thesis by simp
    next
      case Abort
      with Cons.prems False inv have "s' = s1" "r = Abort" by simp_all
      with f1 show ?thesis by simp
    qed
  qed
qed

lemma errorHandler_loop_frame:
  "errorHandler_loop ac er q h s = (r, s') \<Longrightarrow>
     contextStack s' = contextStack s \<and> activeContext s' = activeContext s \<and>
     alUid s' = alUid s \<and> asyncFlags s' = asyncFlags s \<and>
     inAsyncTick s' = inAsyncTick s \<and> inErrorTick s' = inErrorTick s"
  by (drule errorHandler_loop_effect) simp

lemma errorHandler_loop_exit:
  "errorHandler_loop ac er q h s = (r, s') \<Longrightarrow>
     (case r of Throw e \<Rightarrow> exiting s' \<and> emitted s' = emitted s @ [1]
      | Normal b \<Rightarrow> exiting s' = exiting s \<and> emitted s' = emitted s
      | Abort \<Rightarrow> exiting s' = exiting s \<and> emitted s' = emitted s)"
  by (drule errorHandler_loop_effect) simp

lemma handled_by_Cons:
  "handled_by (i # evs) = ((inv_phase i = ErrorCb \<and> (case inv_result i of Normal v \<Rightarrow> truthy v | Throw e \<Rightarrow> False | Abort \<Rightarrow> False)) \<or> handled_by evs)"
  by (simp add: handled_by_def)

lemma handled_by_Nil: "handled_by [] = False"
  by (simp add: handled_by_def)

lemma errorHandler_loop_events:
 "errorHandler_loop ac er q h s = (r, s') \<Longrightarrow>
   \<exists>evs. fired s' = fired s @ evs \<and>
     map (\<lambda>i. (inv_phase i, inv_uid i, inv_args i)) evs =
       map (\<lambda>L. (ErrorCb, uid L, [JObj (self ac), data_get (asyncData ac) (uid L), er]))
         (take (length evs) (filter (\<lambda>L. callback_flags L AND HAS_ERROR_AL \<noteq> 0) q)) \<and>
     length evs \<le> length (filter (\<lambda>L. callback_flags L AND HAS_ERROR_AL \<noteq> 0) q) \<and>
     (\<forall>i\<in>set (butlast evs). \<exists>v. inv_result i = Normal v) \<and>
     (\<forall>b. r = Normal b \<longrightarrow>
        length evs = length (filter (\<lambda>L. callback_flags L AND HAS_ERROR_AL \<noteq> 0) q) \<and>
        (\<forall>i\<in>set evs. \<exists>v. inv_result i = Normal v) \<and> b = (h \<or> handled_by evs)) \<and>
     (\<forall>e. r = Throw e \<longrightarrow> evs \<noteq> [] \<and> inv_result (last evs) = Throw e) \<and>
     (r = Abort \<longrightarrow> evs \<noteq> [] \<and> inv_result (last evs) = Abort)"
proof (induction q arbitrary: h s)
  case Nil
  then show ?case by (auto simp: handled_by_Nil)
next
  case (Cons x q)
  let ?E = "filter (\<lambda>L. callback_flags L AND HAS_ERROR_AL \<noteq> 0)"
  show ?case
  proof (cases "callback_flags x AND HAS_ERROR_AL = 0")
    case True
    with Cons.prems have "errorHandler_loop ac er q h s = (r, s')" by simp
    from Cons.IH[OF this] True show ?thesis by simp
  next
    case False
    let ?args = "[JObj (self ac), data_get (asyncData ac) (uid x), er]"
    obtain r1 s1 where inv: "invoke ErrorCb x ?args s = (r1, s1)" by fastforce
    let ?e0 = "\<lparr>inv_phase = ErrorCb, inv_uid = uid x, inv_args = ?args, inv_result = r1\<rparr>"
    from invoke_frame[OF inv] have f1: "fired s1 = fired s @ [?e0]" by simp
    show ?thesis
    proof (cases r1)
      case (Normal v)
      with Cons.prems False inv
      have "errorHandler_loop ac er q (truthy v \<or> h) s1 = (r, s')" by simp
      from Cons.IH[OF this] obtain evs where
        e: "fired s' = fired s1 @ evs"
           "map (\<lambda>i. (inv_phase i, inv_uid i, inv_args i)) evs =
             map (\<lambda>L. (ErrorCb, uid L, [JObj (self ac), data_get (asyncData ac) (uid L), er]))
               (take (length evs) (?E q))"
           "length evs \<le> length (?E q)"
           "\<forall>i\<in>set (butlast evs). \<exists>v. inv_result i = Normal v"
           "\<forall>b. r = Normal b \<longrightarrow> length evs = length (?E q) \<and>
                    (\<forall>i\<in>set evs. \<exists>v. inv_result i = Normal v) \<and> b = ((truthy v \<or> h) \<or> handled_by evs)"
           "\<forall>e. r = Throw e \<longrightarrow> evs \<noteq> [] \<and> inv_result (last evs) = Throw e"
           "r = Abort \<longrightarrow> evs \<noteq> [] \<and> inv_result (last evs) = Abort"
        by blast
      have "fired s' = fired s @ (?e0 # evs)" using e(1) f1 by simp
      moreover have "map (\<lambda>i. (inv_phase i, inv_uid i, inv_args i)) (?e0 # evs) =
             map (\<lambda>L. (ErrorCb, uid L, [JObj (self ac), data_get (asyncData ac) (uid L), er]))
               (take (length (?e0 # evs)) (?E (x # q)))"
        using e(2) False by simp
      moreover have "length (?e0 # evs) \<le> length (?E (x # q))" using e(3) False by simp
      moreover have "\<forall>i\<in>set (butlast (?e0 # evs)). \<exists>v. inv_result i = Normal v"
        using e(4) Normal by auto
      moreover have "\<forall>b. r = Normal b \<longrightarrow> length (?e0 # evs) = length (?E (x # q)) \<and>
                    (\<forall>i\<in>set (?e0 # evs). \<exists>v. inv_result i = Normal v) \<and> b = (h \<or> handled_by (?e0 # evs))"
        using e(5) False Normal by (auto simp: handled_by_Cons)
      moreover have "\<forall>e. r = Throw e \<longrightarrow> (?e0 # evs) \<noteq> [] \<and> inv_result (last (?e0 # evs)) = Throw e"
        using e(6) by simp
      moreover have "r = Abort \<longrightarrow> (?e0 # evs) \<noteq> [] \<and> inv_result (last (?e0 # evs)) = Abort"
        using e(7) by simp
      ultimately show ?thesis by blast
    next
      case (Throw e)
      with Cons.prems False inv have "r = Throw e" "fired s' = fired s1" by auto
      with f1 False Throw show ?thesis by (intro exI[of _ "[?e0]"]) simp
    next
      case Abort
      with Cons.prems False inv have "r = Abort" "fired s' = fired s1" by auto
      with f1 False Abort show ?thesis by (intro exI[of _ "[?e0]"]) simp
    qed
  qed
qed

lemma unloadContext_frame:
  "unloadContext s = (r, s') \<Longrightarrow>
     alUid s' = alUid s \<and> inAsyncTick s' = inAsyncTick s \<and> inErrorTick s' = inErrorTick s \<and>
     exiting s' = exiting s \<and> emitted s' = emitted s \<and> world s' = world s \<and> fired s' = fired s"
  by (auto simp: unloadContext_def resetGlobalContext_def Let_def split: option.splits if_splits)

lemma errorHandler_guard:
  "inErrorTick s \<or> asyncCallbackFlags (activeContext s) AND HAS_ERROR_AL = 0 \<Longrightarrow>
   errorHandler s er = (Normal False, s)"
  by (simp add: errorHandler_def)

lemma errorHandler_cases:
  assumes "\<not> inErrorTick s" "asyncCallbackFlags (activeContext s) AND HAS_ERROR_AL \<noteq> 0"
    and "errorHandler s er = (r, s')"
  shows "(\<exists>q rl sl. asyncQueue (activeContext s) = Some q \<and>
            errorHandler_loop (activeContext s) er q False (s\<lparr>inErrorTick := True\<rparr>) = (rl, sl) \<and>
            fired s' = fired sl \<and> inAsyncTick s' = inAsyncTick s \<and>
            (\<forall>b. r = Normal b \<longrightarrow> (\<exists>h. rl = Normal h \<and> b = (h \<and> \<not> inAsyncTick s'))) \<and>
            ((\<forall>b. rl \<noteq> Normal b) \<longrightarrow> s' = sl \<and> inErrorTick sl \<and>
                  (\<forall>e. rl = Throw e \<longrightarrow> r = Throw e) \<and> (rl = Abort \<longrightarrow> r = Abort)))
         \<or> (asyncQueue (activeContext s) = None \<and> fired s' = fired s \<and> (\<forall>b. r \<noteq> Normal b))"
proof (cases "asyncQueue (activeContext s)")
  case None
  with assms show ?thesis by (auto simp: errorHandler_def Let_def)
next
  case (Some q)
  obtain rl sl where l: "errorHandler_loop (activeContext s) er q False (s\<lparr>inErrorTick := True\<rparr>) = (rl, sl)"
    by fastforce
  note fl = errorHandler_loop_frame[OF l]
  show ?thesis
  proof (cases rl)
    case (Normal h)
    obtain ru su where u: "unloadContext (sl\<lparr>inErrorTick := False\<rparr>) = (ru, su)" by fastforce
    note fu = unloadContext_frame[OF u]
    from assms Some l Normal u have "s' = su" "\<forall>b. r = Normal b \<longrightarrow> b = (h \<and> \<not> inAsyncTick su)"
      by (auto simp: errorHandler_def Let_def split: completion.splits)
    with Some l Normal fl fu show ?thesis by auto
  next
    case (Throw e)
    with assms Some l have "s' = sl" "r = Throw e" by (auto simp: errorHandler_def Let_def)
    with Some l Throw fl show ?thesis by auto
  next
    case Abort
    with assms Some l have "s' = sl" "r = Abort" by (auto simp: errorHandler_def Let_def)
    with Some l Abort fl show ?thesis by auto
  qed
qed

text \<open>What the entry points leave alone.\<close>

lemma runAsyncQueue_shape:
  assumes "runAsyncQueue s ctx p = (r, ctx', s')"
  shows "asyncFlags s' = asyncFlags s \<and> inErrorTick s' = inErrorTick s \<and>
         ((activeContext s' = activeContext s \<and> contextStack s' = contextStack s) \<or>
          (asyncQueue ctx' \<noteq> None \<and>
           activeContext s' = (if self (activeContext s) = self ctx then ctx' else activeContext s) \<and>
           contextStack s' = map (\<lambda>c. if self c = self ctx then ctx' else c) (contextStack s)))"
proof (cases "asyncQueue (activeContext s)")
  case None
  with assms show ?thesis by (simp add: runAsyncQueue_def)
next
  case (Some q)
  let ?pt = "case PROVIDER_MAP p of None \<Rightarrow> Undefined | Some name \<Rightarrow> JStr name"
  obtain r1 acc1 s1 where
    l: "runAsyncQueue_loop p ?pt q ([], Map.empty, 0) (s\<lparr>inAsyncTick := True\<rparr>) = (r1, acc1, s1)"
    by (metis prod_cases3)
  note f = runAsyncQueue_loop_frame[OF l]
  show ?thesis
  proof (cases "q = []")
    case True
    with assms Some show ?thesis by (simp add: runAsyncQueue_def)
  next
    case False
    obtain queue dat wat where acc1: "acc1 = (queue, dat, wat)" by (cases acc1) auto
    let ?ctx1 = "ctx\<lparr>asyncProvider := p,
                       asyncCallbackFlags := asyncCallbackFlags (activeContext s),
                       asyncQueue := Some queue, asyncData := dat,
                       asyncWatchedProviders := wat\<rparr>"
    from assms Some False l acc1 have c: "ctx' = ?ctx1"
      by (cases r1) (auto simp: runAsyncQueue_def Let_def)
    from assms Some False l acc1 have
      "s' = store_context ?ctx1 (s1\<lparr>inAsyncTick := False\<rparr>) \<or> s' = store_context ?ctx1 s1"
      by (cases r1) (auto simp: runAsyncQueue_def Let_def)
    with f c show ?thesis by (auto simp: store_context_def)
  qed
qed

lemma loadAsyncQueue_shape:
  assumes "loadAsyncQueue s ctx = (r, s')"
  shows "(s' = s \<or>
          contextStack s' = contextStack (loadContext s ctx) \<and>
          activeContext s' = activeContext (loadContext s ctx) \<and>
          asyncFlags s' = asyncFlags (loadContext s ctx)) \<and>
         inErrorTick s' = inErrorTick s"
proof (cases "asyncQueue ctx")
  case None
  with assms show ?thesis
    by (auto simp: loadAsyncQueue_def loadContext_def split: if_splits)
next
  case (Some q)
  obtain r1 s1 where
    l: "loadAsyncQueue_loop ctx q (loadContext s ctx\<lparr>inAsyncTick := True\<rparr>) = (r1, s1)"
    by fastforce
  note f = loadAsyncQueue_loop_frame[OF l]
  have e: "inErrorTick (loadContext s ctx) = inErrorTick s"
    by (simp add: loadContext_def Some)
  from assms Some l f e show ?thesis
    by (cases r1) (auto simp: loadAsyncQueue_def Let_def split: if_splits)
qed

lemma unloadAsyncQueue_shape:
  assumes "unloadAsyncQueue s ctx = (r, s')"
  shows "((\<exists>s1. unloadContext s1 = (r, s') \<and> contextStack s1 = contextStack s \<and>
                activeContext s1 = activeContext s \<and> asyncFlags s1 = asyncFlags s) \<or>
          contextStack s' = contextStack s \<and> activeContext s' = activeContext s \<and>
          asyncFlags s' = asyncFlags s \<and> (\<forall>u. r \<noteq> Normal u)) \<and>
         inErrorTick s' = inErrorTick s"
proof (cases "asyncProvider ctx AND asyncWatchedProviders ctx = 0 \<or>
              asyncCallbackFlags ctx AND HAS_AFTER_AL = 0")
  case True
  with assms have u: "unloadContext s = (r, s')" by (simp add: unloadAsyncQueue_def)
  with unloadContext_frame[OF u] show ?thesis by blast
next
  case False
  show ?thesis
  proof (cases "asyncQueue ctx")
    case None
    with assms False show ?thesis by (auto simp: unloadAsyncQueue_def)
  next
    case (Some q)
    obtain r1 s1 where
      l: "unloadAsyncQueue_loop ctx q (s\<lparr>inAsyncTick := True\<rparr>) = (r1, s1)" by fastforce
    note f = unloadAsyncQueue_loop_frame[OF l]
    show ?thesis
    proof (cases r1)
      case (Normal u)
      with assms False Some l have u: "unloadContext (s1\<lparr>inAsyncTick := False\<rparr>) = (r, s')"
        by (simp add: unloadAsyncQueue_def)
      from unloadContext_frame[OF u] f have "inErrorTick s' = inErrorTick s" by simp
      moreover from u f have
        "\<exists>s1. unloadContext s1 = (r, s') \<and> contextStack s1 = contextStack s \<and>
              activeContext s1 = activeContext s \<and> asyncFlags s1 = asyncFlags s"
        by (intro exI[of _ "s1\<lparr>inAsyncTick := False\<rparr>"]) simp
      ultimately show ?thesis by blast
    next
      case (Throw e)
      with assms False Some l have "s' = s1" "r = Throw e" by (simp_all add: unloadAsyncQueue_def)
      with f show ?thesis by simp
    next
      case Abort
      with assms False Some l have "s' = s1" "r = Abort" by (simp_all add: unloadAsyncQueue_def)
      with f show ?thesis by simp
    qed
  qed
qed

lemma runAsyncQueue_inErrorTick:
  "runAsyncQueue s ctx p = (r, ctx', s') \<Longrightarrow> inErrorTick s' = inErrorTick s"
  by (drule runAsyncQueue_shape) simp

lemma loadAsyncQueue_inErrorTick:
  "loadAsyncQueue s ctx = (r, s') \<Longrightarrow> inErrorTick s' = inErrorTick s"
  by (drule loadAsyncQueue_shape) simp

lemma unloadAsyncQueue_inErrorTick:
  "unloadAsyncQueue s ctx = (r, s') \<Longrightarrow> inErrorTick s' = inErrorTick s"
  by (drule unloadAsyncQueue_shape) simp

lemma createAsyncListener_state:
  assumes "createAsyncListener s a d p = (r, s')"
  shows "s' = s \<or> s' = s\<lparr>alUid := alUid s + 1\<rparr>"
proof (cases a)
  case (Instance al)
  with assms show ?thesis by (simp add: createAsyncListener_def)
next
  case (Callbacks cbs)
  have "snd (new_AsyncListener s cbs d p) = s\<lparr>alUid := alUid s + 1\<rparr>"
    by (simp add: new_AsyncListener_def Let_def)
  with assms Callbacks show ?thesis
    by (auto simp: createAsyncListener_def split: prod.splits)
next
  case (NotAnObject v)
  with assms show ?thesis by (simp add: createAsyncListener_def)
qed

lemma addAsyncListener_shape:
  assumes "addAsyncListener s a d p = (r, s')"
  shows "\<exists>s1. (s1 = s \<or> s1 = s\<lparr>alUid := alUid s + 1\<rparr>) \<and>
           (s' = s1 \<or>
            (\<exists>al queue. r = Normal al \<and> asyncQueue (activeContext s1) = Some queue \<and>
               data_get (asyncData (activeContext s1)) (uid al) = Undefined \<and>
               s' = (addListenerQueueItem s1 al)
                      \<lparr>asyncFlags := (asyncFlags (addListenerQueueItem s1 al))
                         \<lparr>kWatchedProviders :=
                            asyncWatchedProviders (activeContext (addListenerQueueItem s1 al)),
                          kActiveAsyncQueueLength := length (queue @ [al])\<rparr>\<rparr>))"
proof -
  obtain r1 s1 where c: "createAsyncListener s a d p = (r1, s1)" by fastforce
  note st = createAsyncListener_state[OF c]
  show ?thesis
  proof (cases r1)
    case (Normal al)
    show ?thesis
    proof (cases "asyncQueue (activeContext s1)")
      case None
      with assms c Normal have "s' = s1" by (simp add: addAsyncListener_def)
      with st show ?thesis by blast
    next
      case (Some queue)
      show ?thesis
      proof (cases "data_get (asyncData (activeContext s1)) (uid al) = Undefined")
        case True
        with assms c Normal Some have
          "r = Normal al"
          "s' = (addListenerQueueItem s1 al)
                      \<lparr>asyncFlags := (asyncFlags (addListenerQueueItem s1 al))
                         \<lparr>kWatchedProviders :=
                            asyncWatchedProviders (activeContext (addListenerQueueItem s1 al)),
                          kActiveAsyncQueueLength := length (queue @ [al])\<rparr>\<rparr>"
          by (simp_all add: addAsyncListener_def Let_def)
        with st Some True show ?thesis by blast
      next
        case False
        with assms c Normal Some have "s' = s1" by (simp add: addAsyncListener_def)
        with st show ?thesis by blast
      qed
    qed
  next
    case (Throw e)
    with assms c have "s' = s1" by (simp add: addAsyncListener_def)
    with st show ?thesis by blast
  next
    case Abort
    with assms c have "s' = s1" by (simp add: addAsyncListener_def)
    with st show ?thesis by blast
  qed
qed

lemma addAsyncListener_inErrorTick:
  "addAsyncListener s a d p = (r, s') \<Longrightarrow> inErrorTick s' = inErrorTick s"
  by (drule addAsyncListener_shape) (auto simp: addListenerQueueItem_def store_context_def Let_def)

lemma removeAsyncListener_inErrorTick:
  "removeAsyncListener s a = (r, s') \<Longrightarrow> inErrorTick s' = inErrorTick s"
  by (auto simp: removeAsyncListener_def Let_def
           split: option.splits if_splits prod.splits completion.splits listener_arg.splits)

lemma step_inErrorTick: "inErrorTick s \<Longrightarrow> inErrorTick (step s c)"
proof (cases c)
  case (Create ctx p)
  obtain r ctx' s' where "runAsyncQueue s ctx p = (r, ctx', s')" by (metis prod_cases3)
  with Create runAsyncQueue_inErrorTick[OF this] show "inErrorTick s \<Longrightarrow> ?thesis" by simp
next
  case (Load ctx)
  obtain r s' where "loadAsyncQueue s ctx = (r, s')" by fastforce
  with Load loadAsyncQueue_inErrorTick[OF this] show "inErrorTick s \<Longrightarrow> ?thesis" by simp
next
  case (Unload ctx)
  obtain r s' where "unloadAsyncQueue s ctx = (r, s')" by fastforce
  with Unload unloadAsyncQueue_inErrorTick[OF this] show "inErrorTick s \<Longrightarrow> ?thesis" by simp
next
  case (Error er)
  then show "inErrorTick s \<Longrightarrow> ?thesis" by (simp add: errorHandler_guard)
next
  case (Attach a d p)
  obtain r s' where "addAsyncListener s a d p = (r, s')" by fastforce
  with Attach addAsyncListener_inErrorTick[OF this] show "inErrorTick s \<Longrightarrow> ?thesis" by simp
next
  case (Detach a)
  obtain r s' where "removeAsyncListener s a = (r, s')" by fastforce
  with Detach removeAsyncListener_inErrorTick[OF this] show "inErrorTick s \<Longrightarrow> ?thesis" by simp
qed

lemma run_inErrorTick: "inErrorTick s \<Longrightarrow> inErrorTick (run s calls)"
  unfolding run_def by (induction calls arbitrary: s) (simp_all add: step_inErrorTick)

lemma fold_or_start:
  "fold (\<lambda>L a. a OR f L) q (a :: 32 word) = a OR fold (\<lambda>L a. a OR f L) q 0"
proof (induction q arbitrary: a)
  case Nil
  then show ?case by simp
next
  case (Cons x q)
  have "fold (\<lambda>L a. a OR f L) (x # q) a = fold (\<lambda>L a. a OR f L) q (a OR f x)" by simp
  also have "\<dots> = (a OR f x) OR fold (\<lambda>L a. a OR f L) q 0" by (rule Cons.IH)
  also have "\<dots> = a OR (f x OR fold (\<lambda>L a. a OR f L) q 0)" by (simp add: or.assoc)
  also have "f x OR fold (\<lambda>L a. a OR f L) q 0 = fold (\<lambda>L a. a OR f L) q (0 OR f x)"
    using Cons.IH[of "0 OR f x"] by simp
  finally show ?case by simp
qed

lemma flags_of_simps:
  "flags_of [] = 0" "flags_of (x # q) = callback_flags x OR flags_of q"
  "flags_of (q @ [x]) = flags_of q OR callback_flags x"
  using fold_or_start[of callback_flags q "callback_flags x"]
  by (simp_all add: flags_of_def)

lemma watched_of_simps:
  "watched_of [] = 0" "watched_of (x # q) = watched_providers x OR watched_of q"
  "watched_of (q @ [x]) = watched_of q OR watched_providers x"
  using fold_or_start[of watched_providers q "watched_providers x"]
  by (simp_all add: watched_of_def)

lemma flags_of_member:
  "L \<in> set q \<Longrightarrow> callback_flags L AND m \<noteq> 0 \<Longrightarrow> flags_of q AND m \<noteq> 0"
  by (induction q) (auto simp: flags_of_simps bit.conj_disj_distrib2 or_eq_0_iff)

lemma runAsyncQueue_flags:
  assumes "asyncQueue (activeContext s) = Some q" "q \<noteq> []"
    and "runAsyncQueue s ctx provider = (r, ctx', s')"
  shows "asyncCallbackFlags ctx' = asyncCallbackFlags (activeContext s)"
  using assms
  by (auto simp: runAsyncQueue_def Let_def split: prod.splits completion.splits)

text \<open>
  What the create loop has done when it returns. A listener is taken where it stands last
  in the queue: nothing behind it writes to its slot.
\<close>

lemma runAsyncQueue_loop_char:
  "runAsyncQueue_loop p pt xs (queue, dat, wat) s = (Normal (), (queue', dat', wat'), s') \<Longrightarrow>
     queue' = queue @ xs \<and> wat' = wat OR watched_of xs \<and>
     (\<exists>evs. fired s' = fired s @ evs \<and>
        (\<forall>k. k \<notin> uid ` set xs \<longrightarrow> dat' k = dat k) \<and>
        (\<forall>ys L zs. xs = ys @ L # zs \<and> uid L \<notin> uid ` set zs \<longrightarrow>
             (if callback_flags L AND HAS_CREATE_AL = 0 \<or> p AND watched_providers L = 0
              then dat' (uid L) = Some (data L)
              else \<exists>v. \<lparr>inv_phase = CreateCb, inv_uid = uid L, inv_args = [data L, pt],
                          inv_result = Normal v\<rparr> \<in> set evs \<and>
                       dat' (uid L) = Some (if v = Undefined then data L else v))))"
proof (induction xs arbitrary: queue dat wat s)
  case Nil
  then show ?case by (simp add: watched_of_simps)
next
  case (Cons x xs)
  let ?skip = "\<lambda>L. callback_flags L AND HAS_CREATE_AL = 0 \<or> p AND watched_providers L = 0"
  let ?ev = "\<lambda>L v. \<lparr>inv_phase = CreateCb, inv_uid = uid L, inv_args = [data L, pt],
                         inv_result = Normal v\<rparr>"
  let ?Q = "\<lambda>L evs dat'.
             if ?skip L then dat' (uid L) = Some (data L)
             else \<exists>v. ?ev L v \<in> set evs \<and>
                      dat' (uid L) = Some (if v = Undefined then data L else v)"
  let ?P = "\<lambda>xs evs dat'. \<forall>ys L zs. xs = ys @ L # zs \<and> uid L \<notin> uid ` set zs \<longrightarrow> ?Q L evs dat'"
  show ?case
  proof (cases "?skip x")
    case True
    with Cons.prems have
      "runAsyncQueue_loop p pt xs (queue @ [x], dat(uid x \<mapsto> data x), wat OR watched_providers x) s
         = (Normal (), (queue', dat', wat'), s')"
      by (simp add: Let_def)
    from Cons.IH[OF this] obtain evs where
      q: "queue' = (queue @ [x]) @ xs" and w: "wat' = (wat OR watched_providers x) OR watched_of xs"
      and f: "fired s' = fired s @ evs"
      and o: "\<forall>k. k \<notin> uid ` set xs \<longrightarrow> dat' k = (dat(uid x \<mapsto> data x)) k"
      and d: "?P xs evs dat'"
      by blast
    have "?P (x # xs) evs dat'"
    proof (intro allI impI)
      fix ys L zs assume a: "x # xs = ys @ L # zs \<and> uid L \<notin> uid ` set zs"
      show "?Q L evs dat'"
      proof (cases ys)
        case Nil
        with a have e: "L = x" "zs = xs" by simp_all
        with a o have "dat' (uid x) = Some (data x)" by simp
        with True e show ?thesis by simp
      next
        case (Cons y ys')
        with a have "xs = ys' @ L # zs \<and> uid L \<notin> uid ` set zs" by simp
        with d show ?thesis by blast
      qed
    qed
    moreover have "\<forall>k. k \<notin> uid ` set (x # xs) \<longrightarrow> dat' k = dat k" using o by simp
    ultimately show ?thesis using q w f
      by (intro conjI exI[of _ evs]) (simp_all add: watched_of_simps or.assoc)
  next
    case False
    obtain r1 s1 where inv: "invoke CreateCb x [data x, pt] s = (r1, s1)" by fastforce
    from invoke_frame[OF inv]
    have f1: "fired s1 = fired s @ [\<lparr>inv_phase = CreateCb, inv_uid = uid x,
                                     inv_args = [data x, pt], inv_result = r1\<rparr>]" by simp
    from Cons.prems False inv obtain v where r1: "r1 = Normal v"
      by (cases r1) (auto simp: Let_def)
    let ?val = "if v = Undefined then data x else v"
    from Cons.prems False inv r1 have
      "runAsyncQueue_loop p pt xs (queue @ [x], dat(uid x \<mapsto> ?val), wat OR watched_providers x) s1
         = (Normal (), (queue', dat', wat'), s')"
      by (simp add: Let_def)
    from Cons.IH[OF this] obtain evs where
      q: "queue' = (queue @ [x]) @ xs" and w: "wat' = (wat OR watched_providers x) OR watched_of xs"
      and f: "fired s' = fired s1 @ evs"
      and o: "\<forall>k. k \<notin> uid ` set xs \<longrightarrow> dat' k = (dat(uid x \<mapsto> ?val)) k"
      and d: "?P xs evs dat'"
      by blast
    have "?P (x # xs) (?ev x v # evs) dat'"
    proof (intro allI impI)
      fix ys L zs assume a: "x # xs = ys @ L # zs \<and> uid L \<notin> uid ` set zs"
      show "?Q L (?ev x v # evs) dat'"
      proof (cases ys)
        case Nil
        with a have e: "L = x" "zs = xs" by simp_all
        with a o have "dat' (uid x) = Some ?val" by simp
        with False e show ?thesis by (simp only: if_False) (rule exI[of _ v], simp)
      next
        case (Cons y ys')
        with a have "xs = ys' @ L # zs \<and> uid L \<notin> uid ` set zs" by simp
        with d have Q: "?Q L evs dat'" by blast
        show ?thesis
        proof (cases "?skip L")
          case True
          with Q show ?thesis by simp
        next
          case nskip: False
          with Q obtain va where "?ev L va \<in> set evs"
            "dat' (uid L) = Some (if va = Undefined then data L else va)"
            by (metis (no_types, lifting))
          with nskip show ?thesis by (simp only: if_False) (rule exI[of _ va], simp)
        qed
      qed
    qed
    moreover have "\<forall>k. k \<notin> uid ` set (x # xs) \<longrightarrow> dat' k = dat k" using o by simp
    moreover have "fired s' = fired s @ (?ev x v # evs)" using f f1 r1 by simp
    ultimately show ?thesis using q w
      by (intro conjI exI[of _ "?ev x v # evs"]) (simp_all add: watched_of_simps or.assoc)
  qed
qed

lemma status_queues: "status_ok s \<Longrightarrow> stack_ok s \<Longrightarrow> queues_ok s"
  by (auto simp: status_ok_def queues_ok_def split: option.splits)

lemma ok_cong:
  "activeContext s' = activeContext s \<Longrightarrow> contextStack s' = contextStack s \<Longrightarrow>
   asyncFlags s' = asyncFlags s \<Longrightarrow>
   status_ok s' = status_ok s \<and> stack_ok s' = stack_ok s \<and> queues_ok s' = queues_ok s"
  by (simp add: status_ok_def stack_ok_def queues_ok_def split: option.splits)

text \<open>
  Every entry point keeps a queue on the active context and on every suspended one, and
  keeps the Status Word in step with the active context; \<open>runAsyncQueue\<close> keeps the latter
  when its context is another object than the active context.
\<close>

lemma runAsyncQueue_ok:
  assumes "runAsyncQueue s ctx p = (r, ctx', s')" "queues_ok s"
  shows "queues_ok s' \<and> (status_ok s \<and> self ctx \<noteq> self (activeContext s) \<longrightarrow> status_ok s')"
  using runAsyncQueue_shape[OF assms(1)] assms(2)
  by (auto simp: status_ok_def stack_ok_def queues_ok_def split: option.splits)

lemma loadContext_ok:
  "queues_ok s \<Longrightarrow>
   queues_ok (loadContext s ctx) \<and> (status_ok s \<longrightarrow> status_ok (loadContext s ctx))"
  by (auto simp: loadContext_def status_ok_def stack_ok_def queues_ok_def split: option.splits)

lemma loadAsyncQueue_ok:
  assumes "loadAsyncQueue s ctx = (r, s')" "queues_ok s"
  shows "queues_ok s' \<and> (status_ok s \<longrightarrow> status_ok s')"
  using loadAsyncQueue_shape[OF assms(1)] assms(2) loadContext_ok[of s ctx]
        ok_cong[of s' "loadContext s ctx"]
  by auto

lemma unloadContext_ok:
  assumes "unloadContext s = (r, s')" "stack_ok s"
  shows "status_ok s' \<and> stack_ok s' \<and> r = Normal ()"
proof (cases "contextStack s = []")
  case True
  with assms show ?thesis
    by (auto simp: unloadContext_def resetGlobalContext_def global_context_def Let_def
                   status_ok_def stack_ok_def)
next
  case False
  then have "last (contextStack s) \<in> set (contextStack s)" by simp
  with assms(2) obtain q where q: "asyncQueue (last (contextStack s)) = Some q"
    by (auto simp: stack_ok_def)
  have "set (butlast (contextStack s)) \<subseteq> set (contextStack s)"
    by (auto dest: in_set_butlastD)
  with assms False q show ?thesis
    by (auto simp: unloadContext_def Let_def status_ok_def stack_ok_def)
qed

lemma unloadAsyncQueue_ok:
  assumes "unloadAsyncQueue s ctx = (r, s')" "queues_ok s"
  shows "queues_ok s' \<and> (status_ok s \<longrightarrow> status_ok s')"
proof -
  from unloadAsyncQueue_shape[OF assms(1)] show ?thesis
  proof (elim conjE disjE exE)
    fix s1 assume u: "unloadContext s1 = (r, s')" and c: "contextStack s1 = contextStack s"
    with assms(2) have "stack_ok s1" by (simp add: stack_ok_def queues_ok_def)
    from unloadContext_ok[OF u this] show ?thesis by (simp add: status_queues)
  next
    assume "contextStack s' = contextStack s" "activeContext s' = activeContext s"
      "asyncFlags s' = asyncFlags s"
    with assms(2) ok_cong[of s' s] show ?thesis by simp
  qed
qed

lemma errorHandler_ok:
  assumes "errorHandler s er = (r, s')" "queues_ok s"
  shows "queues_ok s' \<and> (status_ok s \<longrightarrow> status_ok s')"
proof (cases "inErrorTick s \<or> asyncCallbackFlags (activeContext s) AND HAS_ERROR_AL = 0")
  case True
  with assms show ?thesis by (simp add: errorHandler_def)
next
  case False
  from assms(2) obtain q where q: "asyncQueue (activeContext s) = Some q"
    by (auto simp: queues_ok_def)
  obtain rl sl where
    l: "errorHandler_loop (activeContext s) er q False (s\<lparr>inErrorTick := True\<rparr>) = (rl, sl)"
    by fastforce
  note f = errorHandler_loop_frame[OF l]
  show ?thesis
  proof (cases rl)
    case (Normal h)
    obtain ru su where u: "unloadContext (sl\<lparr>inErrorTick := False\<rparr>) = (ru, su)" by fastforce
    from f assms(2) have "stack_ok (sl\<lparr>inErrorTick := False\<rparr>)"
      by (simp add: stack_ok_def queues_ok_def)
    from unloadContext_ok[OF u this] have o: "status_ok su \<and> stack_ok su" "ru = Normal ()" by simp_all
    from assms(1) False q l Normal u o(2) have "s' = su"
      by (simp add: errorHandler_def Let_def)
    with o show ?thesis by (simp add: status_queues)
  next
    case (Throw e)
    with assms(1) False q l have "s' = sl" by (simp add: errorHandler_def Let_def)
    with f assms(2) ok_cong[of sl s] show ?thesis by simp
  next
    case Abort
    with assms(1) False q l have "s' = sl" by (simp add: errorHandler_def Let_def)
    with f assms(2) ok_cong[of sl s] show ?thesis by simp
  qed
qed

lemma addAsyncListener_ok:
  assumes "addAsyncListener s a d p = (r, s')" "queues_ok s"
  shows "queues_ok s' \<and> (status_ok s \<longrightarrow> status_ok s')"
  using addAsyncListener_shape[OF assms(1)] assms(2)
  by (auto simp: addListenerQueueItem_def store_context_def Let_def status_ok_def stack_ok_def
                 queues_ok_def split: option.splits)

lemma removeAL_loop_char:
  "removeAL_loop al q (kept, dat, fl, wp) =
     (kept @ filter (\<lambda>L. \<not> same_object L al) q,
      (if \<exists>L\<in>set q. same_object L al then dat(uid al \<mapsto> Undefined) else dat),
      fl OR flags_of (filter (\<lambda>L. \<not> same_object L al) q),
      wp OR watched_of (filter (\<lambda>L. \<not> same_object L al) q))"
proof (induction q arbitrary: kept dat fl wp)
  case Nil
  then show ?case by (simp add: flags_of_simps watched_of_simps)
next
  case (Cons x q)
  show ?case
  proof (cases "same_object x al")
    case True
    then have u: "uid x = uid al" by (simp add: same_object_def)
    have "removeAL_loop al (x # q) (kept, dat, fl, wp) =
          removeAL_loop al q (kept, dat(uid al \<mapsto> Undefined), fl, wp)"
      using True u by simp
    also have "\<dots> =
      (kept @ filter (\<lambda>L. \<not> same_object L al) q,
       (if \<exists>L\<in>set q. same_object L al
        then (dat(uid al \<mapsto> Undefined))(uid al \<mapsto> Undefined)
        else dat(uid al \<mapsto> Undefined)),
       fl OR flags_of (filter (\<lambda>L. \<not> same_object L al) q),
       wp OR watched_of (filter (\<lambda>L. \<not> same_object L al) q))"
      by (rule Cons.IH)
    also have "\<dots> =
      (kept @ filter (\<lambda>L. \<not> same_object L al) (x # q),
       (if \<exists>L\<in>set (x # q). same_object L al then dat(uid al \<mapsto> Undefined) else dat),
       fl OR flags_of (filter (\<lambda>L. \<not> same_object L al) (x # q)),
       wp OR watched_of (filter (\<lambda>L. \<not> same_object L al) (x # q)))"
      using True by simp
    finally show ?thesis .
  next
    case False
    with Cons.IH[of "kept @ [x]" dat "fl OR callback_flags x" "wp OR watched_providers x"]
    show ?thesis by (simp add: flags_of_simps watched_of_simps or.assoc)
  qed
qed

lemma removeAL_result:
  assumes "asyncQueue ctx = Some q"
  shows "fst (removeAL ctx al w) = Normal () \<and>
         fst (snd (removeAL ctx al w)) =
           (if data_get (asyncData ctx) (uid al) = Undefined then ctx
            else ctx\<lparr>asyncQueue := Some (filter (\<lambda>L. \<not> same_object L al) q),
                     asyncData := (if \<exists>L\<in>set q. same_object L al
                                   then (asyncData ctx)(uid al \<mapsto> Undefined) else asyncData ctx),
                     asyncCallbackFlags := flags_of (filter (\<lambda>L. \<not> same_object L al) q),
                     asyncWatchedProviders := watched_of (filter (\<lambda>L. \<not> same_object L al) q)\<rparr>)"
  using assms
  by (simp add: removeAL_def removeAL_loop_char Let_def HAS_NONE_AL_def NONE_def
           split: option.splits)

lemma filter_not_same:
  "\<not> (\<exists>L\<in>set q. same_object L al) \<Longrightarrow> filter (\<lambda>L. \<not> same_object L al) q = q"
  by (induction q) auto

lemma removeAL_consistent:
  assumes "consistent c al"
  shows "fst (removeAL c al w) = Normal () \<and>
         \<not> slot_present (fst (snd (removeAL c al w))) al \<and>
         \<not> attached (fst (snd (removeAL c al w))) al \<and>
         aggregates_ok (fst (snd (removeAL c al w))) \<and>
         asyncQueue (fst (snd (removeAL c al w))) =
           map_option (filter (\<lambda>L. \<not> same_object L al)) (asyncQueue c)"
proof -
  from assms obtain q where q: "asyncQueue c = Some q"
    by (auto simp: consistent_def aggregates_ok_def split: option.splits)
  note r = removeAL_result[OF q, of al w]
  show ?thesis
  proof (cases "data_get (asyncData c) (uid al) = Undefined")
    case True
    with assms q have "\<not> (\<exists>L\<in>set q. same_object L al)"
      by (simp add: consistent_def slot_present_def attached_def)
    with True assms q r filter_not_same[of q al] show ?thesis
      by (simp add: consistent_def slot_present_def attached_def)
  next
    case False
    with assms q have "\<exists>L\<in>set q. same_object L al"
      by (simp add: consistent_def slot_present_def attached_def)
    with False q r show ?thesis
      by (simp add: slot_present_def attached_def aggregates_ok_def data_get_def)
  qed
qed

lemma removeAL_world_free:
  "fst (snd (removeAL c al w)) = fst (snd (removeAL c al w0))"
  by (simp add: removeAL_def Let_def split: option.splits prod.splits)

lemma removeAL_stack_map:
  assumes "\<forall>c\<in>set cs. asyncQueue c \<noteq> None"
  shows "fst (removeAL_stack al cs w) = Normal () \<and>
         fst (snd (removeAL_stack al cs w)) = map (\<lambda>c. fst (snd (removeAL c al w0))) cs"
  using assms
proof (induction cs arbitrary: w)
  case Nil
  then show ?case by simp
next
  case (Cons c cs)
  then obtain q where q: "asyncQueue c = Some q" by auto
  obtain c1 w1 where r: "removeAL c al w = (Normal (), c1, w1)"
    using removeAL_result[OF q, of al w] by (cases "removeAL c al w") auto
  then have c1: "c1 = fst (snd (removeAL c al w0))"
    using removeAL_world_free[of c al w w0] by simp
  from Cons have "fst (removeAL_stack al cs w1) = Normal () \<and>
         fst (snd (removeAL_stack al cs w1)) = map (\<lambda>c. fst (snd (removeAL c al w0))) cs"
    by simp
  with r c1 show ?case by (cases "removeAL_stack al cs w1") simp
qed

lemma removeAL_keeps:
  assumes "asyncQueue ctx = Some q"
  shows "asyncQueue (fst (snd (removeAL ctx al w))) \<noteq> None \<and>
         asyncProvider (fst (snd (removeAL ctx al w))) = asyncProvider ctx"
  using removeAL_result[OF assms, of al w] assms by simp

lemma removeAsyncListener_Instance:
  assumes "asyncQueue (activeContext s) = Some q" and "\<forall>c\<in>set (contextStack s). asyncQueue c \<noteq> None"
    and "removeAsyncListener s (Instance al) = (r, s')"
  shows "r = Normal () \<and>
         activeContext s' = fst (snd (removeAL (activeContext s) al w0)) \<and>
         contextStack s' = map (\<lambda>c. fst (snd (removeAL c al w0))) (contextStack s) \<and>
         (\<exists>q1. asyncQueue (activeContext s') = Some q1 \<and>
            asyncFlags s' = (asyncFlags s)\<lparr>kWatchedProviders := asyncWatchedProviders (activeContext s'),
                                          kActiveAsyncQueueLength := length q1\<rparr>)"
proof -
  obtain ac1 w1 where a: "removeAL (activeContext s) al (world s) = (Normal (), ac1, w1)"
    using removeAL_result[OF assms(1), of al "world s"]
    by (cases "removeAL (activeContext s) al (world s)") auto
  then have ac1: "ac1 = fst (snd (removeAL (activeContext s) al w0))"
    using removeAL_world_free[of "activeContext s" al "world s" w0] by simp
  from removeAL_keeps[OF assms(1), of al w0] ac1 obtain q1 where q1: "asyncQueue ac1 = Some q1"
    by auto
  obtain rs st w2 where st: "removeAL_stack al (contextStack s) w1 = (rs, st, w2)"
    by (metis prod_cases3)
  with removeAL_stack_map[OF assms(2), of al w1 w0]
  have rs: "rs = Normal ()" "st = map (\<lambda>c. fst (snd (removeAL c al w0))) (contextStack s)"
    by simp_all
  from assms(3) a q1 st have
    "r = rs"
    "s' = s\<lparr>activeContext := ac1, world := w1,
             asyncFlags := (asyncFlags s)\<lparr>kWatchedProviders := asyncWatchedProviders ac1,
                                           kActiveAsyncQueueLength := length q1\<rparr>,
             contextStack := st, world := w2\<rparr>"
    by (auto simp: removeAsyncListener_def Let_def)
  with rs ac1 q1 show ?thesis by simp
qed

lemma removeAsyncListener_other:
  "(\<forall>al. a \<noteq> Instance al) \<Longrightarrow> snd (removeAsyncListener s a) = s"
  by (cases a) (simp_all add: removeAsyncListener_def)

lemma removeAsyncListener_ok:
  assumes "removeAsyncListener s a = (r, s')" "queues_ok s"
  shows "queues_ok s' \<and> (status_ok s \<longrightarrow> status_ok s')"
proof (cases a)
  case (Instance al)
  from assms(2) obtain q where q: "asyncQueue (activeContext s) = Some q"
    by (auto simp: queues_ok_def)
  from assms(2) have st: "\<forall>c\<in>set (contextStack s). asyncQueue c \<noteq> None"
    by (simp add: stack_ok_def queues_ok_def)
  from removeAsyncListener_Instance[OF q st assms(1)[unfolded Instance], of "world s"]
  obtain q1 where
    a: "activeContext s' = fst (snd (removeAL (activeContext s) al (world s)))"
    and c: "contextStack s' = map (\<lambda>c. fst (snd (removeAL c al (world s)))) (contextStack s)"
    and q1: "asyncQueue (activeContext s') = Some q1"
    and f: "asyncFlags s' = (asyncFlags s)\<lparr>kWatchedProviders := asyncWatchedProviders (activeContext s'),
                                          kActiveAsyncQueueLength := length q1\<rparr>"
    by blast
  from removeAL_keeps[OF q, of al "world s"] a
  have p: "asyncProvider (activeContext s') = asyncProvider (activeContext s)" by simp
  have "status_ok s \<longrightarrow> status_ok s'"
  proof
    assume "status_ok s"
    with q have "kActiveAsyncContext (asyncFlags s) = asyncProvider (activeContext s)"
      by (simp add: status_ok_def)
    with q1 f p show "status_ok s'" by (simp add: status_ok_def)
  qed
  moreover have "stack_ok s'"
    unfolding stack_ok_def c
  proof
    fix c' assume "c' \<in> set (map (\<lambda>c. fst (snd (removeAL c al (world s)))) (contextStack s))"
    then obtain c0 where c0: "c0 \<in> set (contextStack s)"
      "c' = fst (snd (removeAL c0 al (world s)))" by auto
    with st obtain q0 where "asyncQueue c0 = Some q0" by auto
    from removeAL_keeps[OF this, of al "world s"] c0 show "asyncQueue c' \<noteq> None" by simp
  qed
  ultimately show ?thesis using q1 by (simp add: queues_ok_def)
next
  case (Callbacks cbs)
  with assms show ?thesis by (simp add: removeAsyncListener_def)
next
  case (NotAnObject v)
  with assms show ?thesis by (simp add: removeAsyncListener_def)
qed

lemma step_queues: "queues_ok s \<Longrightarrow> queues_ok (step s c)"
proof (cases c)
  case (Create ctx p)
  obtain r ctx' s' where "runAsyncQueue s ctx p = (r, ctx', s')" by (metis prod_cases3)
  with Create runAsyncQueue_ok[OF this] show "queues_ok s \<Longrightarrow> ?thesis" by simp
next
  case (Load ctx)
  obtain r s' where "loadAsyncQueue s ctx = (r, s')" by fastforce
  with Load loadAsyncQueue_ok[OF this] show "queues_ok s \<Longrightarrow> ?thesis" by simp
next
  case (Unload ctx)
  obtain r s' where "unloadAsyncQueue s ctx = (r, s')" by fastforce
  with Unload unloadAsyncQueue_ok[OF this] show "queues_ok s \<Longrightarrow> ?thesis" by simp
next
  case (Error er)
  obtain r s' where "errorHandler s er = (r, s')" by fastforce
  with Error errorHandler_ok[OF this] show "queues_ok s \<Longrightarrow> ?thesis" by simp
next
  case (Attach a d p)
  obtain r s' where "addAsyncListener s a d p = (r, s')" by fastforce
  with Attach addAsyncListener_ok[OF this] show "queues_ok s \<Longrightarrow> ?thesis" by simp
next
  case (Detach a)
  obtain r s' where "removeAsyncListener s a = (r, s')" by fastforce
  with Detach removeAsyncListener_ok[OF this] show "queues_ok s \<Longrightarrow> ?thesis" by simp
qed

lemma step_status:
  assumes "queues_ok s" "status_ok s"
    and "\<And>ctx p. c = Create ctx p \<Longrightarrow> self ctx \<noteq> self (activeContext s)"
  shows "status_ok (step s c)"
proof (cases c)
  case (Create ctx p)
  obtain r ctx' s' where "runAsyncQueue s ctx p = (r, ctx', s')" by (metis prod_cases3)
  with Create runAsyncQueue_ok[OF this assms(1)] assms(2) assms(3)[OF Create] show ?thesis by simp
next
  case (Load ctx)
  obtain r s' where "loadAsyncQueue s ctx = (r, s')" by fastforce
  with Load loadAsyncQueue_ok[OF this assms(1)] assms(2) show ?thesis by simp
next
  case (Unload ctx)
  obtain r s' where "unloadAsyncQueue s ctx = (r, s')" by fastforce
  with Unload unloadAsyncQueue_ok[OF this assms(1)] assms(2) show ?thesis by simp
next
  case (Error er)
  obtain r s' where "errorHandler s er = (r, s')" by fastforce
  with Error errorHandler_ok[OF this assms(1)] assms(2) show ?thesis by simp
next
  case (Attach a d p)
  obtain r s' where "addAsyncListener s a d p = (r, s')" by fastforce
  with Attach addAsyncListener_ok[OF this assms(1)] assms(2) show ?thesis by simp
next
  case (Detach a)
  obtain r s' where "removeAsyncListener s a = (r, s')" by fastforce
  with Detach removeAsyncListener_ok[OF this assms(1)] assms(2) show ?thesis by simp
qed

lemma run_queues: "queues_ok s \<Longrightarrow> queues_ok (run s calls)"
  unfolding run_def by (induction calls arbitrary: s) (simp_all add: step_queues)

lemma run_status:
  "queues_ok s \<Longrightarrow> status_ok s \<Longrightarrow> fresh_creates s calls \<Longrightarrow> status_ok (run s calls)"
  unfolding run_def
proof (induction calls arbitrary: s)
  case Nil
  then show ?case by simp
next
  case (Cons c calls)
  from Cons.prems(3) have f: "fresh_creates (step s c) calls"
    and n: "\<And>ctx p. c = Create ctx p \<Longrightarrow> self ctx \<noteq> self (activeContext s)"
    by auto
  from step_status[OF Cons.prems(1,2) n] have "status_ok (step s c)" by simp
  from Cons.IH[OF step_queues[OF Cons.prems(1)] this f] show ?case by simp
qed

lemma init_ok: "status_ok (init w) \<and> queues_ok (init w)"
  by (simp add: status_ok_def stack_ok_def queues_ok_def init_def global_context_def NONE_def)


text \<open>
  Where the invariants of the data model come from: the global context has them, a
  \<open>runAsyncQueue\<close> that returns builds a context that has them, and adding and removing
  a listener keep them.
\<close>

lemma global_context_consistent: "consistent global_context al"
  by (simp add: consistent_def aggregates_ok_def slot_present_def attached_def
                global_context_def data_get_def flags_of_def watched_of_def
                HAS_NONE_AL_def NONE_def)

lemma runAsyncQueue_loop_defined:
  "runAsyncQueue_loop p pt xs (queue, dat, wat) s = (Normal (), (queue', dat', wat'), s') \<Longrightarrow>
   \<forall>L\<in>set xs. data L \<noteq> Undefined \<Longrightarrow>
   (data_get dat' k \<noteq> Undefined) = (data_get dat k \<noteq> Undefined \<or> k \<in> uid ` set xs)"
proof (induction xs arbitrary: queue dat wat s)
  case Nil
  then show ?case by simp
next
  case (Cons x xs)
  show ?case
  proof (cases "callback_flags x AND HAS_CREATE_AL = 0 \<or> p AND watched_providers x = 0")
    case True
    with Cons.prems(1) have
      "runAsyncQueue_loop p pt xs (queue @ [x], dat(uid x \<mapsto> data x), wat OR watched_providers x) s
         = (Normal (), (queue', dat', wat'), s')"
      by (simp add: Let_def)
    from Cons.IH[OF this] Cons.prems(2) show ?thesis
      by (auto simp: data_get_def)
  next
    case False
    obtain r1 s1 where inv: "invoke CreateCb x [data x, pt] s = (r1, s1)" by fastforce
    from Cons.prems(1) False inv obtain v where r1: "r1 = Normal v"
      by (cases r1) (auto simp: Let_def)
    let ?val = "if v = Undefined then data x else v"
    from Cons.prems(1) False inv r1 have
      "runAsyncQueue_loop p pt xs (queue @ [x], dat(uid x \<mapsto> ?val), wat OR watched_providers x) s1
         = (Normal (), (queue', dat', wat'), s')"
      by (simp add: Let_def)
    from Cons.IH[OF this] Cons.prems(2) show ?thesis
      by (auto simp: data_get_def)
  qed
qed

lemma runAsyncQueue_consistent:
  assumes "asyncQueue (activeContext s) = Some q" and "aggregates_ok (activeContext s)"
    and "\<forall>L\<in>set q. data L \<noteq> Undefined"
    and "runAsyncQueue s ctx provider = (Normal (), ctx', s')"
  shows "consistent ctx' al"
proof -
  let ?pt = "case PROVIDER_MAP provider of None \<Rightarrow> Undefined | Some name \<Rightarrow> JStr name"
  obtain r queue dat wat s1 where
    l: "runAsyncQueue_loop provider ?pt q ([], Map.empty, 0) (s\<lparr>inAsyncTick := True\<rparr>)
          = (r, (queue, dat, wat), s1)"
    by (metis prod_cases3)
  from assms(1,4) l have r: "r = Normal ()"
    and c: "asyncQueue ctx' = Some queue" "asyncData ctx' = dat"
           "asyncWatchedProviders ctx' = wat"
           "asyncCallbackFlags ctx' = asyncCallbackFlags (activeContext s)"
    by (auto simp: runAsyncQueue_def Let_def split: completion.splits if_splits)
  from runAsyncQueue_loop_char[OF l[unfolded r]]
  have q: "queue = q" "wat = watched_of q" by simp_all
  have "data_get Map.empty (uid al) = Undefined" by (simp add: data_get_def)
  with runAsyncQueue_loop_defined[OF l[unfolded r] assms(3), of "uid al"]
  have "(data_get dat (uid al) \<noteq> Undefined) = (uid al \<in> uid ` set q)" by simp
  also have "\<dots> = (\<exists>L\<in>set q. uid L = uid al)" by (metis image_iff)
  finally have d: "(data_get dat (uid al) \<noteq> Undefined) = (\<exists>L\<in>set q. uid L = uid al)" .
  from assms(1,2) have "asyncCallbackFlags (activeContext s) = flags_of q"
    by (simp add: aggregates_ok_def)
  with c q d show ?thesis
    by (auto simp: consistent_def aggregates_ok_def slot_present_def attached_def same_object_def)
qed

lemma addAsyncListener_consistent:
  assumes "addAsyncListener s a d p = (r, s')"
    and "\<forall>al. consistent (activeContext s) al"
    and "\<forall>al0. a = Instance al0 \<longrightarrow> data al0 \<noteq> Undefined"
  shows "consistent (activeContext s') al"
proof -
  obtain r1 s1 where c: "createAsyncListener s a d p = (r1, s1)" by fastforce
  from createAsyncListener_state[OF c] have a1: "activeContext s1 = activeContext s" by auto
  have "\<And>cbs. data (fst (new_AsyncListener s cbs d p)) \<noteq> Undefined"
    by (simp add: new_AsyncListener_def Let_def)
  then have "\<And>cbs x s1. new_AsyncListener s cbs d p = (x, s1) \<Longrightarrow> data x \<noteq> Undefined"
    by (metis fst_conv)
  with c assms(3) have dl: "\<forall>x. r1 = Normal x \<longrightarrow> data x \<noteq> Undefined"
    by (cases a) (auto simp: createAsyncListener_def split: prod.splits)
  from assms(2) obtain q where q: "asyncQueue (activeContext s) = Some q"
    by (auto simp: consistent_def aggregates_ok_def split: option.splits)
  show ?thesis
  proof (cases r1)
    case (Normal x)
    show ?thesis
    proof (cases "data_get (asyncData (activeContext s1)) (uid x) = Undefined")
      case True
      with assms(1) c Normal q a1 have
        "activeContext s' =
           (activeContext s)\<lparr>asyncQueue := Some (q @ [x]),
              asyncData := (asyncData (activeContext s))(uid x \<mapsto> data x),
              asyncCallbackFlags := asyncCallbackFlags (activeContext s) OR callback_flags x,
              asyncWatchedProviders := asyncWatchedProviders (activeContext s) OR watched_providers x\<rparr>"
        by (auto simp: addAsyncListener_def addListenerQueueItem_def store_context_def Let_def)
      with assms(2)[rule_format, of al] q dl Normal show ?thesis
        by (auto simp: consistent_def aggregates_ok_def slot_present_def attached_def
                       same_object_def data_get_def flags_of_simps watched_of_simps)
    next
      case False
      with assms(1) c Normal q a1 have "activeContext s' = activeContext s"
        by (auto simp: addAsyncListener_def)
      with assms(2) show ?thesis by simp
    qed
  next
    case (Throw e)
    with assms(1) c a1 have "activeContext s' = activeContext s"
      by (auto simp: addAsyncListener_def)
    with assms(2) show ?thesis by simp
  next
    case Abort
    with assms(1) c a1 have "activeContext s' = activeContext s"
      by (auto simp: addAsyncListener_def)
    with assms(2) show ?thesis by simp
  qed
qed

lemma removeAL_consistent_other:
  assumes "\<forall>al'. consistent c al'"
  shows "consistent (fst (snd (removeAL c al w))) al'"
proof -
  from assms obtain q where q: "asyncQueue c = Some q"
    by (auto simp: consistent_def aggregates_ok_def split: option.splits)
  note r = removeAL_result[OF q, of al w]
  show ?thesis
  proof (cases "data_get (asyncData c) (uid al) = Undefined")
    case True
    with r assms show ?thesis by simp
  next
    case False
    with assms[rule_format, of al] q have at: "\<exists>L\<in>set q. same_object L al"
      by (simp add: consistent_def slot_present_def attached_def)
    show ?thesis
    proof (cases "uid al' = uid al")
      case True
      with False at q r show ?thesis
        by (auto simp: consistent_def slot_present_def attached_def aggregates_ok_def
                       data_get_def same_object_def)
    next
      case neq: False
      with False at q r assms[rule_format, of al'] show ?thesis
        by (auto simp: consistent_def slot_present_def attached_def aggregates_ok_def
                       data_get_def same_object_def)
    qed
  qed
qed







text \<open>What \<open>removeAL\<close> does to a context that has a queue.\<close>

lemma removeAL_detached:
  assumes "asyncQueue c = Some q"
  shows "detached al c (fst (snd (removeAL c al w)))"
proof (cases "data_get (asyncData c) (uid al) = Undefined")
  case True
  with removeAL_result[OF assms, of al w] show ?thesis
    by (simp add: detached_def slot_present_def)
next
  case False
  with removeAL_result[OF assms, of al w] assms show ?thesis
    by (auto simp: detached_def slot_present_def attached_def aggregates_ok_def data_get_def)
qed

lemmas eval_defs =
  listening_def only_error_def addAsyncListener_def createAsyncListener_def
  new_AsyncListener_def init_def global_context_def errorHandler_def invoke_def
  callback_of_def unloadContext_def resetGlobalContext_def addListenerQueueItem_def
  store_context_def
  data_get_def flags_simps Let_def new_events_def handled_by_def NONE_def
  listener1_def throws_error_def failing_def blank_handle_def with_create_def
  listenerA_def creating_def listener_tcp_def listening_tcp_def mute_def muted_def
  runAsyncQueue_def

lemmas eval_more =
  eval_defs timer0_def idle_timer_def relistening_def socket1_def nested_def
  run_def loadAsyncQueue_def unloadAsyncQueue_def loadContext_def removeAsyncListener_def
  removeAL_def same_object_def TIMER_def TCP_def PROVIDER_MAP_def ASYNC_PROVIDERS_def

section \<open>The error hook: what it returns\<close>

text \<open>
  Claim C3. \<open>errorHandler\<close> returns false, and changes nothing, when \<open>inErrorTick\<close> is set
  or the active context's callback flags lack the ERROR bit. In every other case, when it
  returns, it returns \<open>handled && !inAsyncTick\<close>, where \<open>handled\<close> holds exactly when
  one of the error callbacks invoked by this call returned a truthy value.
\<close>

theorem errorHandler_returns:
  "(inErrorTick s \<or> asyncCallbackFlags (activeContext s) AND HAS_ERROR_AL = 0 \<longrightarrow>
      errorHandler s er = (Normal False, s)) \<and>
   (\<not> inErrorTick s \<and> asyncCallbackFlags (activeContext s) AND HAS_ERROR_AL \<noteq> 0 \<and>
    errorHandler s er = (Normal b, s') \<longrightarrow>
      b = (handled_by (new_events s s') \<and> \<not> inAsyncTick s') \<and> inAsyncTick s' = inAsyncTick s)"
proof (rule conjI; rule impI)
  assume "inErrorTick s \<or> asyncCallbackFlags (activeContext s) AND HAS_ERROR_AL = 0"
  then show "errorHandler s er = (Normal False, s)" by (rule errorHandler_guard)
next
  assume a: "\<not> inErrorTick s \<and> asyncCallbackFlags (activeContext s) AND HAS_ERROR_AL \<noteq> 0 \<and>
    errorHandler s er = (Normal b, s')"
  from errorHandler_cases[of s er "Normal b" s'] a
  obtain q h sl where q: "asyncQueue (activeContext s) = Some q"
    and l: "errorHandler_loop (activeContext s) er q False (s\<lparr>inErrorTick := True\<rparr>) = (Normal h, sl)"
    and f: "fired s' = fired sl" and t: "inAsyncTick s' = inAsyncTick s"
    and b: "b = (h \<and> \<not> inAsyncTick s')"
    by auto
  from errorHandler_loop_events[OF l] obtain evs where
    "fired sl = fired s @ evs" "h = handled_by evs" by auto
  with f have "new_events s s' = evs" by (simp add: new_events_def)
  with b t \<open>h = handled_by evs\<close>
  show "b = (handled_by (new_events s s') \<and> \<not> inAsyncTick s') \<and> inAsyncTick s' = inAsyncTick s"
    by simp
qed

theorem errorHandler_returns_witness:
  "errorHandler (init ()) (JStr ''boom'') = (Normal False, init ()) \<and>
   \<not> inErrorTick listening \<and>
   asyncCallbackFlags (activeContext listening) AND HAS_ERROR_AL \<noteq> 0 \<and>
   fst (errorHandler listening (JStr ''boom'')) = Normal True \<and>
   handled_by (new_events listening (snd (errorHandler listening (JStr ''boom'')))) \<and>
   \<not> inAsyncTick (snd (errorHandler listening (JStr ''boom'')))"
  using errorHandler_returns [of "init ()" "JStr ''boom''" True "init ()"]
        errorHandler_returns [of listening "JStr ''boom''" True
                                "snd (errorHandler listening (JStr ''boom''))"]
  by (simp add: eval_defs)

section \<open>Loading a context with an empty queue\<close>

text \<open>
  Claim C8. For a context whose \<open>_asyncQueue\<close> is present but empty, \<open>loadAsyncQueue\<close>
  returns at once: the whole state is unchanged, so nothing is pushed on the stack, the
  active context and the Status Word stay as they were, and no callback is invoked.
\<close>

theorem loadAsyncQueue_empty_queue:
  "asyncQueue c = Some [] \<Longrightarrow> loadAsyncQueue s c = (Normal (), s)"
  by (simp add: loadAsyncQueue_def)

theorem loadAsyncQueue_empty_queue_witness:
  "asyncQueue (global_context :: unit async_context) = Some [] \<and>
   loadAsyncQueue listening global_context = (Normal (), listening)"
  using loadAsyncQueue_empty_queue [of global_context listening]
  by (simp add: global_context_def)

section \<open>The error hook: which callbacks it invokes\<close>

text \<open>
  Claim C5 is about the loop of \<open>errorHandler\<close>. The loop applies no provider test: past
  the entry guard, as long as no error callback changes the active context's queue while
  the loop runs, \<open>errorHandler\<close> invokes the error callback of the listeners of the active
  context whose callback flags contain ERROR, in queue order, each on the context, the
  listener's slot and the error. The provider of the context and the watch mask of the
  listener play no part. The invocations stop short of the last such listener only when
  the last invoked callback did not return (it threw).

  The loop indexes the array \<open>ac._asyncQueue\<close> itself (\<open>for (i = 0; i < queue.length; i++)\<close>).
  An error callback that calls \<open>removeAsyncListener\<close> on its own listener has \<open>removeAL\<close>
  splice that array: the next listener moves to the index just visited and the loop's
  \<open>i++\<close> steps over it, so that listener's error callback is not invoked although
  nothing threw. \<open>removeAL\<close>'s own loop makes up for its splice with \<open>i--\<close>; the loop of
  \<open>errorHandler\<close> has nothing of the kind.
\<close>

theorem errorHandler_invokes_without_filter:
  assumes "\<not> inErrorTick s" and "asyncCallbackFlags (activeContext s) AND HAS_ERROR_AL \<noteq> 0"
    and "asyncQueue (activeContext s) = Some q"
    and "errorHandler s er = (r, s')"
  shows "length (new_events s s') \<le> length (filter (\<lambda>L. callback_flags L AND HAS_ERROR_AL \<noteq> 0) q) \<and>
         map (\<lambda>i. (inv_phase i, inv_uid i, inv_args i)) (new_events s s') =
           map (\<lambda>L. (ErrorCb, uid L,
                      [JObj (self (activeContext s)), data_get (asyncData (activeContext s)) (uid L), er]))
             (take (length (new_events s s'))
                (filter (\<lambda>L. callback_flags L AND HAS_ERROR_AL \<noteq> 0) q)) \<and>
         (length (new_events s s') < length (filter (\<lambda>L. callback_flags L AND HAS_ERROR_AL \<noteq> 0) q) \<longrightarrow>
            new_events s s' \<noteq> [] \<and> (\<forall>v. inv_result (last (new_events s s')) \<noteq> Normal v))"
proof -
  from errorHandler_cases[OF assms(1,2,4)] assms(3)
  obtain rl sl where
    l: "errorHandler_loop (activeContext s) er q False (s\<lparr>inErrorTick := True\<rparr>) = (rl, sl)"
    and f: "fired s' = fired sl" by auto
  from errorHandler_loop_events[OF l] obtain evs where
    e: "fired sl = fired s @ evs"
       "map (\<lambda>i. (inv_phase i, inv_uid i, inv_args i)) evs =
          map (\<lambda>L. (ErrorCb, uid L,
                     [JObj (self (activeContext s)), data_get (asyncData (activeContext s)) (uid L), er]))
            (take (length evs) (filter (\<lambda>L. callback_flags L AND HAS_ERROR_AL \<noteq> 0) q))"
       "length evs \<le> length (filter (\<lambda>L. callback_flags L AND HAS_ERROR_AL \<noteq> 0) q)"
       "\<forall>b. rl = Normal b \<longrightarrow>
          length evs = length (filter (\<lambda>L. callback_flags L AND HAS_ERROR_AL \<noteq> 0) q)"
       "\<forall>e. rl = Throw e \<longrightarrow> evs \<noteq> [] \<and> inv_result (last evs) = Throw e"
       "rl = Abort \<longrightarrow> evs \<noteq> [] \<and> inv_result (last evs) = Abort"
    by auto
  from e(1) f have n: "new_events s s' = evs" by (simp add: new_events_def)
  have "length evs < length (filter (\<lambda>L. callback_flags L AND HAS_ERROR_AL \<noteq> 0) q) \<longrightarrow>
            evs \<noteq> [] \<and> (\<forall>v. inv_result (last evs) \<noteq> Normal v)"
    using e(4,5,6) by (cases rl) auto
  with e(2,3) show ?thesis unfolding n by blast
qed

text \<open>
  In \<open>listening\<close> the active context is the global context, whose provider is 0: the
  filter of the other phases would exclude the listener, and its error callback runs.
\<close>

theorem errorHandler_invokes_without_filter_witness:
  "\<not> inErrorTick listening \<and>
   asyncCallbackFlags (activeContext listening) AND HAS_ERROR_AL \<noteq> 0 \<and>
   asyncQueue (activeContext listening) = Some [listener1] \<and>
   asyncProvider (activeContext listening) AND watched_providers listener1 = 0 \<and>
   map (\<lambda>i. (inv_phase i, inv_uid i, inv_args i))
     (new_events listening (snd (errorHandler listening (JStr ''boom'')))) =
     [(ErrorCb, 1, [JObj 0, Null, JStr ''boom''])]"
  using errorHandler_invokes_without_filter
          [of listening "[listener1]" "JStr ''boom''"
              "fst (errorHandler listening (JStr ''boom''))"
              "snd (errorHandler listening (JStr ''boom''))"]
  by (simp add: eval_defs)

section \<open>The error hook: an error callback that throws\<close>

text \<open>
  Claim C10. When an error callback invoked by \<open>errorHandler\<close> throws, the exception leaves
  \<open>errorHandler\<close>, \<open>process._exiting\<close> is set and \<open>exit\<close> was emitted with code 1, and
  \<open>inErrorTick\<close> stays set: after any further calls into the module it is still set, and
  every later \<open>errorHandler\<close> returns false.
\<close>

theorem errorHandler_throw_is_final:
  assumes "errorHandler s er = (r, s1)"
    and "i \<in> set (new_events s s1)" and "inv_result i = Throw e"
  shows "r = Throw e \<and> exiting s1 \<and> emitted s1 = emitted s @ [1] \<and> inErrorTick s1 \<and>
         (\<forall>calls er'. inErrorTick (run s1 calls) \<and>
                      errorHandler (run s1 calls) er' = (Normal False, run s1 calls))"
proof -
  have g: "\<not> inErrorTick s" "asyncCallbackFlags (activeContext s) AND HAS_ERROR_AL \<noteq> 0"
    using assms(1,2) errorHandler_guard[of s er] by (auto simp: new_events_def)
  from errorHandler_cases[OF g assms(1)] assms(2)
  obtain q rl sl where
    l: "errorHandler_loop (activeContext s) er q False (s\<lparr>inErrorTick := True\<rparr>) = (rl, sl)"
    and c: "(\<forall>b. rl \<noteq> Normal b) \<longrightarrow> s1 = sl \<and> inErrorTick sl \<and>
                  (\<forall>e. rl = Throw e \<longrightarrow> r = Throw e) \<and> (rl = Abort \<longrightarrow> r = Abort)"
    and f: "fired s1 = fired sl"
    by (auto simp: new_events_def)
  from errorHandler_loop_events[OF l] obtain evs where
    e: "fired sl = fired s @ evs"
       "\<forall>i\<in>set (butlast evs). \<exists>v. inv_result i = Normal v"
       "\<forall>b. rl = Normal b \<longrightarrow> (\<forall>i\<in>set evs. \<exists>v. inv_result i = Normal v)"
       "\<forall>e. rl = Throw e \<longrightarrow> evs \<noteq> [] \<and> inv_result (last evs) = Throw e"
       "rl = Abort \<longrightarrow> evs \<noteq> [] \<and> inv_result (last evs) = Abort"
    by auto
  from e(1) f have n: "new_events s s1 = evs" by (simp add: new_events_def)
  with assms(2) have i: "i \<in> set evs" by simp
  then have ne: "evs \<noteq> []" by auto
  with i e(2) assms(3) have il: "i = last evs"
    by (metis append_butlast_last_id completion.distinct(1) in_set_conv_decomp_last
          butlast_snoc last_snoc set_ConsD list.set(1) empty_iff rotate1.simps(2) set_rotate1)
  have rl: "rl = Throw e"
  proof (cases rl)
    case (Normal b) with e(3) i assms(3) show ?thesis by auto
  next
    case (Throw e') with e(4) il assms(3) show ?thesis by auto
  next
    case Abort with e(5) il assms(3) show ?thesis by auto
  qed
  with c have s1: "s1 = sl" "inErrorTick sl" "r = Throw e" by auto
  from errorHandler_loop_exit[OF l] rl errorHandler_loop_frame[OF l]
  have x: "exiting sl" "emitted sl = emitted s @ [1]" by auto
  have "\<And>calls er'. inErrorTick (run s1 calls) \<and>
                      errorHandler (run s1 calls) er' = (Normal False, run s1 calls)"
    using run_inErrorTick[of s1] s1 errorHandler_guard by blast
  with s1 x show ?thesis by simp
qed

theorem errorHandler_throw_is_final_witness:
  "fst (errorHandler failing (JStr ''boom'')) = Throw (JStr ''failed'') \<and>
   map inv_result (new_events failing (snd (errorHandler failing (JStr ''boom'')))) =
     [Throw (JStr ''failed'')] \<and>
   exiting (snd (errorHandler failing (JStr ''boom''))) \<and>
   emitted (snd (errorHandler failing (JStr ''boom''))) = [1] \<and>
   fst (errorHandler (run (snd (errorHandler failing (JStr ''boom''))) [Unload global_context])
          (JStr ''again'')) = Normal False"
  using errorHandler_throw_is_final
          [of failing "JStr ''boom''" "fst (errorHandler failing (JStr ''boom''))"
              "snd (errorHandler failing (JStr ''boom''))"
              "\<lparr>inv_phase = ErrorCb, inv_uid = 1, inv_args = [JObj 0, Null, JStr ''boom''],
                inv_result = Throw (JStr ''failed'')\<rparr>"
              "JStr ''failed''"]
  by (simp add: eval_defs)

section \<open>The create phase\<close>




text \<open>
  Claim C4. A call of \<open>runAsyncQueue\<close> made while the active context's queue is not empty
  sets the new context's callback flags to the active context's callback flags, whatever
  the provider and whether or not a create callback throws. So when the active context's
  flags are the OR of its listeners' flags, a listener with only an error callback gives
  the new context the ERROR bit, also when the provider is outside its watch mask.
\<close>

theorem runAsyncQueue_copies_flags:
  assumes "asyncQueue (activeContext s) = Some q" "q \<noteq> []"
    and "runAsyncQueue s ctx provider = (r, ctx', s')"
  shows "asyncCallbackFlags ctx' = asyncCallbackFlags (activeContext s) \<and>
         (asyncCallbackFlags (activeContext s) = flags_of q \<longrightarrow>
            (\<forall>L\<in>set q. callback_flags L = HAS_ERROR_AL \<longrightarrow>
                 asyncCallbackFlags ctx' AND HAS_ERROR_AL \<noteq> 0))"
proof -
  have "HAS_ERROR_AL AND HAS_ERROR_AL \<noteq> 0" by (simp add: flags_simps)
  with runAsyncQueue_flags[OF assms] flags_of_member[of _ q HAS_ERROR_AL]
  show ?thesis by auto
qed

theorem runAsyncQueue_copies_flags_witness:
  "asyncQueue (activeContext listening_tcp) = Some [listener_tcp] \<and>
   asyncCallbackFlags (activeContext listening_tcp) = flags_of [listener_tcp] \<and>
   callback_flags listener_tcp = HAS_ERROR_AL \<and>
   TIMER AND watched_providers listener_tcp = 0 \<and>
   asyncCallbackFlags (fst (snd (runAsyncQueue listening_tcp (blank_handle 7) TIMER))) = 8"
  using runAsyncQueue_copies_flags
          [of listening_tcp "[listener_tcp]" "blank_handle 7" TIMER
              "fst (runAsyncQueue listening_tcp (blank_handle 7) TIMER)"
              "fst (snd (runAsyncQueue listening_tcp (blank_handle 7) TIMER))"
              "snd (snd (runAsyncQueue listening_tcp (blank_handle 7) TIMER))"]
  by (simp add: eval_defs TCP_def TIMER_def PROVIDER_MAP_def ASYNC_PROVIDERS_def flags_of_def)

section \<open>The provider of \<open>nextTick\<close>\<close>




section \<open>The Status Word\<close>

text \<open>
  Every entry point that changes the active context writes the Status Word afterwards,
  except \<open>runAsyncQueue\<close>, which writes to the context it is given and leaves the Status
  Word alone. So the Status Word stays in step with the active context as long as
  \<open>runAsyncQueue\<close> is not called on the object that is the active context: initially,
  and after every such sequence of calls of \<open>runAsyncQueue\<close>, \<open>loadAsyncQueue\<close>,
  \<open>unloadAsyncQueue\<close>, \<open>errorHandler\<close>, \<open>addAsyncListener\<close> and \<open>removeAsyncListener\<close>,
  on any arguments and however the calls end, the three slots of the Status Word are the
  active context's provider, the length of its queue and its watched providers.
\<close>

theorem status_word_mirrors_active_context:
  "fresh_creates (init w) calls \<Longrightarrow> status_ok (run (init w) calls)"
  using run_status[of "init w" calls] init_ok[of w] by simp

theorem status_word_mirrors_active_context_witness:
  "fresh_creates (init ()) [Attach (Callbacks only_error) Undefined None,
                            Create (blank_handle 7) TIMER, Load timer0, Error (JStr ''boom'')] \<and>
   asyncFlags (run (init ()) [Attach (Callbacks only_error) Undefined None,
                              Create (blank_handle 7) TIMER, Load timer0, Error (JStr ''boom'')]) =
     \<lparr>kActiveAsyncContext = 0, kActiveAsyncQueueLength = 1, kWatchedProviders = 0xfffffff\<rparr>"
  using status_word_mirrors_active_context
          [of "()" "[Attach (Callbacks only_error) Undefined None,
                     Create (blank_handle 7) TIMER, Load timer0, Error (JStr ''boom'')]"]
  by (simp add: eval_more status_ok_def)

text \<open>
  Claim C6 fails when \<open>runAsyncQueue\<close> is called on the active context and a create
  callback throws. In \<open>inside\<close> the function passed to \<open>nextTick\<close> is running: it is the
  active context, with the listeners 1, 2 and 3, and the Status Word holds the length 3.
  The function passes itself to \<open>nextTick\<close> again; \<open>runAsyncQueue\<close> gives it a new queue
  and the create callback of listener 2 throws. The active context is left with the
  listeners 1 and 2 and the watched providers of these two, and the Status Word still
  holds the length 3 and the watched providers of all three: also after the
  \<open>runAsyncQueue\<close> for a timer that follows and returns, and after the call of
  \<open>errorHandler\<close> that follows and returns.
\<close>

theorem status_word_stale_after_failed_create:
  "status_ok inside \<and> self (activeContext inside) = self tick \<and>
   map uid (the (asyncQueue (activeContext inside))) = [1, 2, 3] \<and>
   fst (runAsyncQueue inside (activeContext inside) NEXTTICK) = Throw (JStr ''failed'') \<and>
   fst (runAsyncQueue (run inside [Create (activeContext inside) NEXTTICK]) (blank_handle 8) TIMER) =
     Normal () \<and>
   fst (errorHandler (run inside [Create (activeContext inside) NEXTTICK,
                                  Create (blank_handle 8) TIMER]) (JStr ''boom'')) = Normal False \<and>
   map uid (the (asyncQueue (activeContext stale))) = [1, 2] \<and>
   kActiveAsyncQueueLength (asyncFlags stale) = 3 \<and>
   asyncWatchedProviders (activeContext stale) = TCP \<and>
   kWatchedProviders (asyncFlags stale) = 0xfffffff \<and>
   \<not> status_ok stale"
  by (simp add: eval_more status_ok_def inside_def stale_def tick_def throws_create_def
                NEXTTICK_def)

section \<open>Removing a listener\<close>

text \<open>
  Claim C7, as stated, fails for a context that a throwing create callback left with a
  listener in its queue and no slot for it. In \<open>stranded\<close> the callback of such a timer
  runs: the timer is the active context, listener 1 is in its queue, and the slot of
  listener 1 reads as undefined. \<open>removeAL\<close> returns at its first test, and after
  \<open>removeAsyncListener\<close> has returned the listener is still in the active context's queue.
\<close>

theorem removeAsyncListener_half_built_counterexample:
  "uid thrower = 1 \<and>
   map uid (the (asyncQueue (activeContext stranded))) = [1] \<and>
   \<not> slot_present (activeContext stranded) thrower \<and>
   fst (removeAsyncListener stranded (Instance thrower)) = Normal () \<and>
   map uid (the (asyncQueue (activeContext (snd (removeAsyncListener stranded (Instance thrower)))))) =
     [1] \<and>
   attached (activeContext (snd (removeAsyncListener stranded (Instance thrower)))) thrower"
  by (simp add: eval_more stranded_def half_built_def guarded_def thrower_def throws_create_def
                slot_present_def attached_def)

text \<open>
  Claim C7, amended. In every state that calls of the module's entry points lead to,
  \<open>removeAsyncListener\<close> returns, and it has passed the active context and every
  context on the stack through \<open>removeAL\<close>. A context in which the listener's slot read
  as defined has lost the listener: its queue is the old queue without the listener, the
  two aggregates are the OR over the remaining listeners, and the slot reads as undefined
  if the listener was in the queue. A context in which the slot read as undefined is left
  as it was, also when the listener is in its queue.
\<close>

theorem removeAsyncListener_detaches_where_slotted:
  assumes "removeAsyncListener (run (init w) calls) (Instance al) = (r, s')"
  shows "r = Normal () \<and>
         list_all2 (detached al)
           (activeContext (run (init w) calls) # contextStack (run (init w) calls))
           (activeContext s' # contextStack s')"
proof -
  let ?s = "run (init w) calls"
  from run_queues[of "init w" calls] init_ok[of w] have "queues_ok ?s" by simp
  then have q: "\<forall>c\<in>set (activeContext ?s # contextStack ?s). asyncQueue c \<noteq> None"
    by (simp add: queues_ok_def stack_ok_def)
  then obtain q0 where q0: "asyncQueue (activeContext ?s) = Some q0" by auto
  from q have st: "\<forall>c\<in>set (contextStack ?s). asyncQueue c \<noteq> None" by simp
  from removeAsyncListener_Instance[OF q0 st assms, of "world ?s"]
  have r: "r = Normal ()"
    and l: "activeContext s' # contextStack s' =
            map (\<lambda>c. fst (snd (removeAL c al (world ?s)))) (activeContext ?s # contextStack ?s)"
    by simp_all
  have "list_all2 (detached al) (activeContext ?s # contextStack ?s)
          (map (\<lambda>c. fst (snd (removeAL c al (world ?s)))) (activeContext ?s # contextStack ?s))"
    unfolding list_all2_map2 list_all2_same
  proof
    fix c assume "c \<in> set (activeContext ?s # contextStack ?s)"
    with q obtain qc where "asyncQueue c = Some qc" by auto
    then show "detached al c (fst (snd (removeAL c al (world ?s))))" by (rule removeAL_detached)
  qed
  with r l show ?thesis by simp
qed

theorem removeAsyncListener_detaches_where_slotted_witness:
  "run (init ()) [Attach (Callbacks only_error) Undefined None, Load socket1, Load timer0] = nested \<and>
   length (contextStack nested) = 2 \<and>
   slot_present (activeContext nested) listener1 \<and>
   attached (activeContext nested) listener1 \<and>
   fst (removeAsyncListener nested (Instance listener1)) = Normal () \<and>
   map asyncQueue (contextStack (snd (removeAsyncListener nested (Instance listener1)))) =
     [Some [], Some []] \<and>
   asyncQueue (activeContext (snd (removeAsyncListener nested (Instance listener1)))) = Some [] \<and>
   data_get (asyncData (activeContext (snd (removeAsyncListener nested (Instance listener1))))) 1 =
     Undefined"
  using removeAsyncListener_detaches_where_slotted
          [of "()" "[Attach (Callbacks only_error) Undefined None, Load socket1, Load timer0]"
              listener1
              "fst (removeAsyncListener nested (Instance listener1))"
              "snd (removeAsyncListener nested (Instance listener1))"]
  by (simp add: eval_more slot_present_def attached_def)

section \<open>Load followed by unload\<close>




end
